theory Spec2Isabelle
  imports Complex_Main "HOL-Library.Multiset" "HOL-Library.Sublist"
begin

section \<open>Errors and Python list indexing\<close>

text \<open>
  The exceptions that the notebooks can raise. \<open>CollaboratorError\<close> stands for any
  exception coming out of an external service call (question generation, index
  construction, query engine, judges, reranker).
\<close>

datatype error = ValueError | IndexError | ZeroDivisionError | CollaboratorError string

text \<open>
  Python resolves a list subscript \<open>xs[i]\<close> on a list of length \<open>n\<close>: a negative
  subscript counts from the end, anything outside \<open>-n \<le> i < n\<close> raises IndexError.
\<close>

definition py_index :: "nat \<Rightarrow> int \<Rightarrow> error + nat" where
  "py_index n i =
     (let j = (if i < 0 then int n + i else i)
      in if 0 \<le> j \<and> j < int n then Inr (nat j) else Inl IndexError)"

section \<open>Contextual chunk headers: reranking and the header comparison\<close>

text \<open>
  One entry of \<open>reranked_results.results\<close> as returned by the reranking service:
  the position of the document in the submitted list and its relevance score.
  Scores are passed through untouched, so their type is left open; the only score
  the code itself produces is the literal \<open>0\<close> of \<open>[0] * len(chunks)\<close>.
\<close>

record 's rerank_result =
  result_index :: int
  relevance_score :: 's

type_synonym 's reranker = "string \<Rightarrow> string list \<Rightarrow> error + 's rerank_result list"

text \<open>
  The loop \<open>for i, index in enumerate(reranked_indices):
  similarity_scores[index] = reranked_similarity_scores[i]\<close>.
\<close>

fun assign_scores :: "'s list \<Rightarrow> (nat \<times> int) list \<Rightarrow> 's list \<Rightarrow> error + 's list" where
  "assign_scores reranked_similarity_scores [] similarity_scores = Inr similarity_scores"
| "assign_scores reranked_similarity_scores ((i, index) # rest) similarity_scores =
     (case py_index (length similarity_scores) index of
        Inl e \<Rightarrow> Inl e
      | Inr j \<Rightarrow>
          assign_scores reranked_similarity_scores rest
            (similarity_scores[j := reranked_similarity_scores ! i]))"

definition rerank_documents :: "('s::zero) reranker \<Rightarrow> string \<Rightarrow> string list \<Rightarrow> error + 's list" where
  "rerank_documents rerank query chunks =
     (case rerank query chunks of
        Inl e \<Rightarrow> Inl e
      | Inr results \<Rightarrow>
          (let reranked_indices = map result_index results;
               reranked_similarity_scores = map relevance_score results;
               similarity_scores = replicate (length chunks) 0
           in assign_scores reranked_similarity_scores
                (enumerate 0 reranked_indices) similarity_scores))"

definition with_header :: "string \<Rightarrow> string \<Rightarrow> string" where
  "with_header document_title chunk_text =
     ''Document Title: '' @ document_title @ [CHR 0x0A, CHR 0x0A] @ chunk_text"

text \<open>
  \<open>compare_chunk_similarities\<close> returns \<open>None\<close> and writes five \<open>print\<close> calls to
  standard output. The model returns the outcome (an error, or \<open>()\<close> for \<open>None\<close>)
  together with the printed strings, one per \<open>print\<close> call, as UTF-8 bytes and without
  the newline that \<open>print\<close> appends. Nothing is printed when the chunk lookup or the
  reranking raises, since both precede the first \<open>print\<close>. The two scores are printed
  through the format specification \<open>:.4f\<close>, which is the language's own and is taken as
  the parameter \<open>format_4f\<close>.
\<close>

definition chunk_header_line :: "string \<Rightarrow> string" where
  "chunk_header_line document_title =
     [CHR 0x0A, CHR 0xF0, CHR 0x9F, CHR 0x93, CHR 0x84] @ '' Chunk header:'' @ [CHR 0x0A]
       @ ''Document Title: '' @ document_title"

definition chunk_text_line :: "string \<Rightarrow> string" where
  "chunk_text_line chunk_text =
     [CHR 0x0A, CHR 0xF0, CHR 0x9F, CHR 0x93, CHR 0x84] @ '' Chunk text:'' @ [CHR 0x0A]
       @ chunk_text"

definition query_line :: "string \<Rightarrow> string" where
  "query_line query = [CHR 0x0A, CHR 0xF0, CHR 0x9F, CHR 0x94, CHR 0x8D] @ '' Query: '' @ query"

definition without_header_line :: "string \<Rightarrow> string" where
  "without_header_line formatted_score =
     [CHR 0x0A, CHR 0xE2, CHR 0x9D, CHR 0x8C] @ '' Similarity without header: ''
       @ formatted_score"

definition with_header_line :: "string \<Rightarrow> string" where
  "with_header_line formatted_score =
     [CHR 0xE2, CHR 0x9C, CHR 0x85] @ '' Similarity with header:    '' @ formatted_score"

definition compare_chunk_similarities ::
  "('s \<Rightarrow> string) \<Rightarrow> ('s::zero) reranker \<Rightarrow> int \<Rightarrow> string list \<Rightarrow> string \<Rightarrow> string
     \<Rightarrow> (error + unit) \<times> string list" where
  "compare_chunk_similarities format_4f rerank chunk_index chunks document_title query =
     (case py_index (length chunks) chunk_index of
        Inl e \<Rightarrow> (Inl e, [])
      | Inr c \<Rightarrow>
          (let chunk_text = chunks ! c;
               chunk_wo_header = chunk_text;
               chunk_w_header = with_header document_title chunk_text
           in case rerank_documents rerank query [chunk_wo_header, chunk_w_header] of
                Inl e \<Rightarrow> (Inl e, [])
              | Inr similarity_scores \<Rightarrow>
                  (Inr (),
                   [chunk_header_line document_title,
                    chunk_text_line chunk_text,
                    query_line query,
                    without_header_line (format_4f (similarity_scores ! 0)),
                    with_header_line (format_4f (similarity_scores ! 1))])))"

section \<open>Chunk-size evaluation: data\<close>

type_synonym question = string
type_synonym document = string

text \<open>
  An \<open>OpenAI(model=..., temperature=...)\<close> handle: the model name and the temperature
  when the notebook gives one.
\<close>

datatype llm = OpenAI string "real option"

text \<open>The three fields of the library's global \<open>Settings\<close> object that the notebook writes.\<close>

record settings =
  llm :: llm
  chunk_size :: int
  chunk_overlap :: int

text \<open>
  \<open>vector_index.as_query_engine(similarity_top_k=5)\<close>: the index, the model taken
  from \<open>Settings.llm\<close> at that moment, and the retrieval depth.
\<close>

record 'ix query_engine =
  engine_index :: 'ix
  engine_llm :: llm
  similarity_top_k :: nat

text \<open>
  The external services. Each call may raise and may change the outside world \<open>'w\<close>
  (which also carries the wall clock read by \<open>time.time()\<close>); nothing is assumed
  about them. \<open>'ix\<close> is the type of a built vector index, \<open>'r\<close> of a query response.

  Times and averages are floating-point numbers in the source. A floating-point number is
  modelled by the real it denotes, and every floating-point operation by the exact
  operation followed by \<open>float_round\<close>, the rounding of a real to a representable
  number: \<open>x - y\<close> is \<open>float_round (x - y)\<close>, and likewise \<open>+\<close> and \<open>/\<close>; the true
  division of two integers is the rounded exact quotient. The rounding is part of the
  environment; what is known of it is stated where it is used.
\<close>

record ('w, 'ix, 'r) collaborators =
  clock :: "'w \<Rightarrow> real"
  float_round :: "real \<Rightarrow> real"
  generate_questions_from_nodes ::
    "settings \<Rightarrow> document list \<Rightarrow> 'w \<Rightarrow> (error + question list) \<times> 'w"
  from_documents :: "settings \<Rightarrow> document list \<Rightarrow> 'w \<Rightarrow> (error + 'ix) \<times> 'w"
  query_engine_query :: "'ix query_engine \<Rightarrow> question \<Rightarrow> 'w \<Rightarrow> (error + 'r) \<times> 'w"
  faithfulness_evaluate_response :: "'r \<Rightarrow> 'w \<Rightarrow> (error + bool) \<times> 'w"
  relevancy_evaluate_response :: "question \<Rightarrow> 'r \<Rightarrow> 'w \<Rightarrow> (error + bool) \<times> 'w"

text \<open>
  A log of what the session did, kept beside the program state so that properties about
  the calls made (which, in what order, with what outcome) can be stated. It is not read
  by the program.
\<close>

datatype judge = Faithfulness | Relevancy

datatype event =
    GenerateQuestionsCall "document list" "error option"
  | EvaluateCalled int "question list"
  | FromDocumentsCall settings "document list" "error option"
  | QueryCall question "error + real"
  | JudgeCall judge question "error + bool"
  | Printed int real real real

fun raised :: "event \<Rightarrow> error option" where
  "raised (GenerateQuestionsCall docs r) = r"
| "raised (EvaluateCalled cs qs) = None"
| "raised (FromDocumentsCall S docs r) = r"
| "raised (QueryCall q r) = (case r of Inl e \<Rightarrow> Some e | Inr t \<Rightarrow> None)"
| "raised (JudgeCall j q r) = (case r of Inl e \<Rightarrow> Some e | Inr b \<Rightarrow> None)"
| "raised (Printed cs t f r) = None"

fun judge_call :: "event \<Rightarrow> (judge \<times> question) option" where
  "judge_call (JudgeCall j q r) = Some (j, q)"
| "judge_call ev = None"

fun elapsed_time_of :: "event \<Rightarrow> real option" where
  "elapsed_time_of (QueryCall q (Inr t)) = Some t"
| "elapsed_time_of ev = None"

fun passing :: "judge \<Rightarrow> event \<Rightarrow> bool" where
  "passing j (JudgeCall j' q (Inr b)) = (j = j' \<and> b)"
| "passing j ev = False"

fun evaluate_called :: "event \<Rightarrow> bool" where
  "evaluate_called (EvaluateCalled cs qs) = True"
| "evaluate_called ev = False"

text \<open>
  The process-global generator behind \<open>random.sample\<close>. Its state is the sequence of
  raw outputs still to come; \<open>randbelow n\<close> consumes one and yields its residue below
  \<open>n\<close>. The library's loops that redraw until a usable value comes rely on the generator
  not getting stuck on a few values. That is the one thing assumed of it, and it is part
  of the type: whatever the modulus, every residue keeps coming.
\<close>

definition fair :: "(nat \<Rightarrow> nat) \<Rightarrow> bool" where
  "fair g = (\<forall>n>0. \<forall>r<n. \<forall>i. \<exists>j\<ge>i. g j mod n = r)"

typedef rng = "{g :: nat \<Rightarrow> nat. fair g}"
  morphisms raw Abs_rng
proof
  show "(\<lambda>i. i) \<in> {g. fair g}"
    unfolding fair_def mem_Collect_eq
  proof (intro allI impI)
    fix n r i :: nat assume "0 < n" "r < n"
    then have "i \<le> n * i + r" "(n * i + r) mod n = r" by (simp_all add: trans_le_add1)
    then show "\<exists>j\<ge>i. j mod n = r" by blast
  qed
qed

setup_lifting type_definition_rng

lift_definition advance :: "rng \<Rightarrow> rng" is "\<lambda>g i. g (Suc i)"
  unfolding fair_def
proof (intro allI impI)
  fix g :: "nat \<Rightarrow> nat" and n r i :: nat
  assume g: "\<forall>n>0. \<forall>r<n. \<forall>i. \<exists>j\<ge>i. g j mod n = r" and "0 < n" "r < n"
  then obtain j where "Suc i \<le> j" "g j mod n = r" by blast
  then have "i \<le> j - 1" "g (Suc (j - 1)) mod n = r" by simp_all
  then show "\<exists>j\<ge>i. g (Suc j) mod n = r" by blast
qed

definition randbelow :: "nat \<Rightarrow> rng \<Rightarrow> nat \<times> rng" where
  "randbelow n g = (raw g 0 mod n, advance g)"

record 'w state =
  world :: 'w
  Settings :: settings
  random_state :: rng
  trace :: "event list"

definition log_event :: "event \<Rightarrow> 'w state \<Rightarrow> 'w state" where
  "log_event ev s = s\<lparr>trace := trace s @ [ev]\<rparr>"

definition call :: "('w \<Rightarrow> 'a \<times> 'w) \<Rightarrow> 'w state \<Rightarrow> 'a \<times> 'w state" where
  "call f s = (case f (world s) of (r, w) \<Rightarrow> (r, s\<lparr>world := w\<rparr>))"

section \<open>Benchmark generation\<close>

text \<open>
  The standard library's \<open>random.sample(population, k)\<close>. A sample larger than the
  population raises ValueError. Otherwise one of two loops runs, chosen by comparing the
  population's length with \<open>setsize\<close>, which is \<open>21\<close>, plus \<open>4 ** ceil(log(k * 3, 4))\<close>
  when \<open>k > 5\<close> (277 for \<open>k = 25\<close>; \<open>k * 3\<close> is never a power of 4, so the ceiling is
  not taken at a boundary).

  Up to \<open>setsize\<close>, selection from a pool:
  \<open>j = randbelow(n - i); result[i] = pool[j]; pool[j] = pool[n - i - 1]\<close>.
  The live part of the pool (its first \<open>n - i\<close> entries) is the list passed along.
\<close>

fun sample_pool_loop :: "nat \<Rightarrow> 'a list \<Rightarrow> rng \<Rightarrow> 'a list \<times> rng" where
  "sample_pool_loop 0 pool g = ([], g)"
| "sample_pool_loop (Suc k) pool g =
     (case randbelow (length pool) g of
        (j, g1) \<Rightarrow>
          (case sample_pool_loop k (butlast (pool[j := last pool])) g1 of
             (result, g2) \<Rightarrow> (pool ! j # result, g2)))"

text \<open>
  Above \<open>setsize\<close>, selection with a set of the positions already taken:
  \<open>j = randbelow(n); while j in selected: j = randbelow(n)\<close>, then
  \<open>selected.add(j); result[i] = population[j]\<close>. The inner loop has no bound of its
  own, so it is a partial function and \<open>None\<close> stands for not returning.
\<close>

partial_function (option) redraw :: "nat \<Rightarrow> nat set \<Rightarrow> nat \<Rightarrow> rng \<Rightarrow> (nat \<times> rng) option" where
  "redraw n selected j g =
     (if j \<in> selected
      then redraw n selected (fst (randbelow n g)) (snd (randbelow n g))
      else Some (j, g))"

fun sample_set_loop :: "nat \<Rightarrow> 'a list \<Rightarrow> nat set \<Rightarrow> rng \<Rightarrow> ('a list \<times> rng) option" where
  "sample_set_loop 0 population selected g = Some ([], g)"
| "sample_set_loop (Suc k) population selected g =
     (case randbelow (length population) g of
        (j0, g1) \<Rightarrow>
          (case redraw (length population) selected j0 g1 of
             None \<Rightarrow> None
           | Some (j, g2) \<Rightarrow>
               (case sample_set_loop k population (insert j selected) g2 of
                  None \<Rightarrow> None
                | Some (result, g3) \<Rightarrow> Some (population ! j # result, g3))))"

fun ceil_log4 :: "nat \<Rightarrow> nat" where
  "ceil_log4 m = (if m \<le> 1 then 0 else Suc (ceil_log4 ((m + 3) div 4)))"

definition setsize :: "nat \<Rightarrow> nat" where
  "setsize k = (if k > 5 then 21 + 4 ^ ceil_log4 (k * 3) else 21)"

text \<open>
  With a generator of type \<open>rng\<close> the set loop always returns (lemma
  \<open>sample_set_loop_returns\<close> below), so its result can be taken out of the option.
\<close>

definition random_sample :: "'a list \<Rightarrow> nat \<Rightarrow> rng \<Rightarrow> error + ('a list \<times> rng)" where
  "random_sample population k g =
     (let n = length population
      in if \<not> k \<le> n then Inl ValueError
         else if n \<le> setsize k then Inr (sample_pool_loop k population g)
         else Inr (the (sample_set_loop k population {} g)))"

definition num_eval_questions :: nat where
  "num_eval_questions = 25"

definition generate_benchmark ::
  "('w, 'ix, 'r) collaborators \<Rightarrow> document list \<Rightarrow> 'w state
     \<Rightarrow> (error + document list \<times> question list) \<times> 'w state" where
  "generate_benchmark C documents s =
     (let eval_documents = take 20 documents
      in case call (generate_questions_from_nodes C (Settings s) eval_documents) s of
           (Inl e, s1) \<Rightarrow> (Inl e, log_event (GenerateQuestionsCall eval_documents (Some e)) s1)
         | (Inr eval_questions, s1) \<Rightarrow>
             (let s2 = log_event (GenerateQuestionsCall eval_documents None) s1
              in case random_sample eval_questions num_eval_questions (random_state s2) of
                   Inl e \<Rightarrow> (Inl e, s2)
                 | Inr (k_eval_questions, g) \<Rightarrow>
                     (Inr (eval_documents, k_eval_questions), s2\<lparr>random_state := g\<rparr>)))"

section \<open>Evaluating one chunk size\<close>

text \<open>
  The body of \<open>for question in eval_questions\<close> up to the two judge verdicts. There is
  no \<open>try\<close> in the source: an exception from the query engine or from a judge leaves
  the loop and the function.
\<close>

definition ask :: "('w, 'ix, 'r) collaborators \<Rightarrow> 'ix query_engine \<Rightarrow> question \<Rightarrow> 'w state
    \<Rightarrow> (error + real \<times> bool \<times> bool) \<times> 'w state" where
  "ask C query_engine question s =
     (let start_time = clock C (world s)
      in case call (query_engine_query C query_engine question) s of
           (Inl e, s1) \<Rightarrow> (Inl e, log_event (QueryCall question (Inl e)) s1)
         | (Inr response_vector, s1) \<Rightarrow>
             (let elapsed_time = float_round C (clock C (world s1) - start_time);
                  s2 = log_event (QueryCall question (Inr elapsed_time)) s1
              in case call (faithfulness_evaluate_response C response_vector) s2 of
                   (Inl e, s3) \<Rightarrow> (Inl e, log_event (JudgeCall Faithfulness question (Inl e)) s3)
                 | (Inr faithfulness_result, s3) \<Rightarrow>
                     (let s4 = log_event (JudgeCall Faithfulness question (Inr faithfulness_result)) s3
                      in case call (relevancy_evaluate_response C question response_vector) s4 of
                           (Inl e, s5) \<Rightarrow> (Inl e, log_event (JudgeCall Relevancy question (Inl e)) s5)
                         | (Inr relevancy_result, s5) \<Rightarrow>
                             (Inr (elapsed_time, faithfulness_result, relevancy_result),
                              log_event (JudgeCall Relevancy question (Inr relevancy_result)) s5))))"

fun question_loop :: "('w, 'ix, 'r) collaborators \<Rightarrow> 'ix query_engine \<Rightarrow> question list
    \<Rightarrow> real \<times> nat \<times> nat \<Rightarrow> 'w state \<Rightarrow> (error + real \<times> nat \<times> nat) \<times> 'w state" where
  "question_loop C query_engine [] totals s = (Inr totals, s)"
| "question_loop C query_engine (question # rest)
     (total_response_time, total_faithfulness, total_relevancy) s =
     (case ask C query_engine question s of
        (Inl e, s1) \<Rightarrow> (Inl e, s1)
      | (Inr (elapsed_time, faithfulness_result, relevancy_result), s1) \<Rightarrow>
          question_loop C query_engine rest
            (float_round C (total_response_time + elapsed_time),
             total_faithfulness + of_bool faithfulness_result,
             total_relevancy + of_bool relevancy_result) s1)"

definition evaluate_response_time_and_accuracy ::
  "('w, 'ix, 'r) collaborators \<Rightarrow> document list \<Rightarrow> int \<Rightarrow> question list \<Rightarrow> 'w state
     \<Rightarrow> (error + real \<times> real \<times> real) \<times> 'w state" where
  "evaluate_response_time_and_accuracy C eval_documents chunk_size' eval_questions s =
     (let s1 = log_event (EvaluateCalled chunk_size' eval_questions) s;
          s2 = s1\<lparr>Settings := (Settings s1)\<lparr>llm := OpenAI ''gpt-3.5-turbo'' None\<rparr>\<rparr>;
          s3 = s2\<lparr>Settings := (Settings s2)\<lparr>chunk_size := chunk_size'\<rparr>\<rparr>;
          s4 = s3\<lparr>Settings := (Settings s3)\<lparr>chunk_overlap := chunk_size' div 5\<rparr>\<rparr>
      in case call (from_documents C (Settings s4) eval_documents) s4 of
           (Inl e, s5) \<Rightarrow>
             (Inl e, log_event (FromDocumentsCall (Settings s4) eval_documents (Some e)) s5)
         | (Inr vector_index, s5) \<Rightarrow>
             (let s6 = log_event (FromDocumentsCall (Settings s4) eval_documents None) s5;
                  query_engine = \<lparr>engine_index = vector_index,
                                  engine_llm = llm (Settings s6), similarity_top_k = 5\<rparr>;
                  num_questions = length eval_questions
              in case question_loop C query_engine eval_questions (0, 0, 0) s6 of
                   (Inl e, s7) \<Rightarrow> (Inl e, s7)
                 | (Inr (total_response_time, total_faithfulness, total_relevancy), s7) \<Rightarrow>
                     if num_questions = 0 then (Inl ZeroDivisionError, s7)
                     else (Inr (float_round C (total_response_time / real num_questions),
                                float_round C (real total_faithfulness / real num_questions),
                                float_round C (real total_relevancy / real num_questions)),
                           s7)))"

section \<open>The comparison session\<close>

definition gpt4 :: llm where
  "gpt4 = OpenAI ''gpt-4o'' (Some 0)"

definition chunk_sizes :: "int list" where
  "chunk_sizes = [128, 256]"

fun chunk_sizes_loop :: "('w, 'ix, 'r) collaborators \<Rightarrow> document list \<Rightarrow> question list
    \<Rightarrow> int list \<Rightarrow> 'w state \<Rightarrow> (error + unit) \<times> 'w state" where
  "chunk_sizes_loop C eval_documents k_eval_questions [] s = (Inr (), s)"
| "chunk_sizes_loop C eval_documents k_eval_questions (chunk_size' # rest) s =
     (case evaluate_response_time_and_accuracy C eval_documents chunk_size' k_eval_questions s of
        (Inl e, s1) \<Rightarrow> (Inl e, s1)
      | (Inr (avg_response_time, avg_faithfulness, avg_relevancy), s1) \<Rightarrow>
          chunk_sizes_loop C eval_documents k_eval_questions rest
            (log_event (Printed chunk_size' avg_response_time avg_faithfulness avg_relevancy) s1))"

text \<open>
  The notebook's cells in order: generate and sample the questions, set
  \<open>Settings.llm = gpt4\<close> for the judges, then evaluate every chunk size with the
  sampled questions.
\<close>

definition session ::
  "('w, 'ix, 'r) collaborators \<Rightarrow> document list \<Rightarrow> 'w state \<Rightarrow> (error + unit) \<times> 'w state" where
  "session C documents s =
     (case generate_benchmark C documents s of
        (Inl e, s1) \<Rightarrow> (Inl e, s1)
      | (Inr (eval_documents, k_eval_questions), s1) \<Rightarrow>
          chunk_sizes_loop C eval_documents k_eval_questions chunk_sizes
            (s1\<lparr>Settings := (Settings s1)\<lparr>llm := gpt4\<rparr>\<rparr>))"

section \<open>Reading the log\<close>

text \<open>The settings in force while chunk size \<open>c\<close> is evaluated.\<close>

definition variant_settings :: "int \<Rightarrow> settings" where
  "variant_settings c =
     \<lparr>llm = OpenAI ''gpt-3.5-turbo'' None, chunk_size = c, chunk_overlap = c div 5\<rparr>"

text \<open>The state in which the index is built, and the query engine made from an index.\<close>

definition prepared :: "int \<Rightarrow> question list \<Rightarrow> 'w state \<Rightarrow> 'w state" where
  "prepared c qs s = (log_event (EvaluateCalled c qs) s)\<lparr>Settings := variant_settings c\<rparr>"

definition engine :: "'ix \<Rightarrow> 'ix query_engine" where
  "engine ix = \<lparr>engine_index = ix, engine_llm = OpenAI ''gpt-3.5-turbo'' None,
                 similarity_top_k = 5\<rparr>"

text \<open>The three divisions at the end of the evaluation, applied to the loop's outcome.\<close>

definition finish ::
  "(real \<Rightarrow> real) \<Rightarrow> nat \<Rightarrow> error + real \<times> nat \<times> nat \<Rightarrow> error + real \<times> real \<times> real" where
  "finish fl n r0 =
     (case r0 of
        Inl e \<Rightarrow> Inl e
      | Inr (tt, tf, tr) \<Rightarrow>
          if n = 0 then Inl ZeroDivisionError
          else Inr (fl (tt / real n), fl (real tf / real n), fl (real tr / real n)))"

text \<open>
  The floating-point sum of a list as the loop accumulates it: from \<open>0\<close>, one rounded
  addition per element, in list order.
\<close>

definition float_sum :: "(real \<Rightarrow> real) \<Rightarrow> real list \<Rightarrow> real" where
  "float_sum fl xs = foldl (\<lambda>total x. fl (total + x)) 0 xs"

text \<open>
  The elapsed times of the answered queries, the number of passing verdicts of one judge,
  and the judge invocations in the order they were made.
\<close>

primrec elapsed_times :: "event list \<Rightarrow> real list" where
  "elapsed_times [] = []"
| "elapsed_times (ev # evs) =
     (case elapsed_time_of ev of None \<Rightarrow> elapsed_times evs | Some t \<Rightarrow> t # elapsed_times evs)"

definition passes :: "judge \<Rightarrow> event list \<Rightarrow> nat" where
  "passes j evs = length (filter (passing j) evs)"

primrec judge_calls :: "event list \<Rightarrow> (judge \<times> question) list" where
  "judge_calls [] = []"
| "judge_calls (ev # evs) =
     (case judge_call ev of None \<Rightarrow> judge_calls evs | Some c \<Rightarrow> c # judge_calls evs)"

text \<open>One faithfulness and one relevancy invocation per question, in question order.\<close>

definition judge_plan :: "question list \<Rightarrow> (judge \<times> question) list" where
  "judge_plan qs = concat (map (\<lambda>q. [(Faithfulness, q), (Relevancy, q)]) qs)"

section \<open>Example services\<close>

text \<open>
  A coarse floating-point format for the examples: the representable numbers are the
  multiples of a quarter, and rounding is downwards.
\<close>

definition quarters :: "real \<Rightarrow> real" where
  "quarters x = of_int \<lfloor>x * 4\<rfloor> / 4"

text \<open>
  Concrete services for running the model: the outside world is a tick counter that is
  also the clock. Every query takes three ticks; the relevancy judge fails question
  \<open>q2\<close>; two questions are generated per document.
\<close>

definition example_services :: "(nat, settings \<times> document list, string) collaborators" where
  "example_services =
     \<lparr>clock = real,
      float_round = quarters,
      generate_questions_from_nodes =
        (\<lambda>S docs w. (Inr (concat (map (\<lambda>d. [''What is '' @ d, ''Why '' @ d]) docs)), w + 5)),
      from_documents = (\<lambda>S docs w. (Inr (S, docs), w + 10)),
      query_engine_query = (\<lambda>qe q w. (Inr (''Answer: '' @ q), w + 3)),
      faithfulness_evaluate_response = (\<lambda>r w. (Inr True, w + 1)),
      relevancy_evaluate_response = (\<lambda>q r w. (Inr (q \<noteq> ''q2''), w + 1))\<rparr>"

text \<open>The query engine times out on question \<open>q2\<close>.\<close>

definition query_timeout :: "(nat, settings \<times> document list, string) collaborators" where
  "query_timeout = example_services
     \<lparr>query_engine_query :=
        (\<lambda>qe q w. if q = ''q2'' then (Inl (CollaboratorError ''timeout''), w + 30)
                   else (Inr (''Answer: '' @ q), w + 3))\<rparr>"

text \<open>The relevancy judge times out on question \<open>q2\<close>.\<close>

definition relevancy_timeout :: "(nat, settings \<times> document list, string) collaborators" where
  "relevancy_timeout = example_services
     \<lparr>relevancy_evaluate_response :=
        (\<lambda>q r w. if q = ''q2'' then (Inl (CollaboratorError ''timeout''), w + 30)
                  else (Inr True, w + 1))\<rparr>"

text \<open>The faithfulness judge times out whenever it is called.\<close>

definition judge_timeout :: "(nat, settings \<times> document list, string) collaborators" where
  "judge_timeout = example_services
     \<lparr>faithfulness_evaluate_response :=
        (\<lambda>r w. (Inl (CollaboratorError ''timeout''), w + 30))\<rparr>"

text \<open>Question generation yields a single question per document.\<close>

definition one_question_per_document ::
  "(nat, settings \<times> document list, string) collaborators" where
  "one_question_per_document = example_services
     \<lparr>generate_questions_from_nodes :=
        (\<lambda>S docs w. (Inr (map (\<lambda>d. ''What is '' @ d) docs), w + 5))\<rparr>"

text \<open>
  Generators for the examples: the one whose raw outputs count up from \<open>k\<close>, and a
  generator preceded by a given list of raw outputs.
\<close>

lift_definition counting_from :: "nat \<Rightarrow> rng" is "\<lambda>k i. k + i"
  unfolding fair_def
proof (intro allI impI)
  fix k n r i :: nat assume "0 < n" "r < n"
  let ?m = "Suc (k + i)"
  let ?t = "n * ?m + r"
  have "1 * ?m \<le> n * ?m" using \<open>0 < n\<close> by (intro mult_le_mono1) simp
  then have "?m \<le> n * ?m" by (simp only: nat_mult_1)
  then have big: "k + i < ?t" by linarith
  then have restore: "k + (?t - k) = ?t" by linarith
  have "?t mod n = r" using \<open>r < n\<close> by (simp only: mod_mult_self4 mod_less)
  then have "(k + (?t - k)) mod n = r" by (simp only: restore)
  moreover have "i \<le> ?t - k" using big by linarith
  ultimately show "\<exists>j\<ge>i. (k + j) mod n = r" by blast
qed

lift_definition preceded_by :: "nat list \<Rightarrow> rng \<Rightarrow> rng"
  is "\<lambda>xs g i. if i < length xs then xs ! i else g (i - length xs)"
  unfolding fair_def
proof (intro allI impI)
  fix xs :: "nat list" and g :: "nat \<Rightarrow> nat" and n r i :: nat
  assume g: "\<forall>n>0. \<forall>r<n. \<forall>i. \<exists>j\<ge>i. g j mod n = r" and "0 < n" "r < n"
  then obtain j where j: "i \<le> j" "g j mod n = r" by blast
  let ?j = "j + length xs"
  have "i \<le> ?j" using j(1) by simp
  moreover have "(if ?j < length xs then xs ! ?j else g (?j - length xs)) mod n = r"
    using j(2) by simp
  ultimately show "\<exists>j\<ge>i. (if j < length xs then xs ! j else g (j - length xs)) mod n = r"
    by blast
qed

text \<open>
  A process that has just started: the library's default settings, nothing logged, and
  the generator that counts up from \<open>0\<close>.
\<close>

definition fresh :: "nat state" where
  "fresh = \<lparr>world = 0,
            Settings = \<lparr>llm = OpenAI ''gpt-3.5-turbo'' None, chunk_size = 1024,
                         chunk_overlap = 200\<rparr>,
            random_state = counting_from 0, trace = []\<rparr>"

text \<open>
  A formatter for the examples: sign, integer part, and four decimals rounded to nearest
  (ties to even).
\<close>

definition decimal_digit :: "nat \<Rightarrow> char" where
  "decimal_digit d = ''0123456789'' ! (d mod 10)"

fun decimal :: "nat \<Rightarrow> string" where
  "decimal n = (if n < 10 then [decimal_digit n] else decimal (n div 10) @ [decimal_digit n])"

definition nearest_int :: "real \<Rightarrow> int" where
  "nearest_int y =
     (let f = \<lfloor>y\<rfloor>
      in if y - of_int f < 1 / 2 then f
         else if 1 / 2 < y - of_int f then f + 1
         else if even f then f else f + 1)"

definition four_decimals :: "real \<Rightarrow> string" where
  "four_decimals x =
     (let m = nat (nearest_int (\<bar>x\<bar> * 10000))
      in (if x < 0 then ''-'' else []) @ decimal (m div 10000) @ ''.''
           @ [decimal_digit (m div 1000), decimal_digit (m div 100),
              decimal_digit (m div 10), decimal_digit m])"

text \<open>
  A reranker that scores a document by the inverse of its length and returns the results
  in reverse input order, and one that returns a single result, for the last document.
\<close>

definition reversing_reranker :: "real reranker" where
  "reversing_reranker query docs =
     Inr (rev (map (\<lambda>(i, d). \<lparr>result_index = int i, relevance_score = 1 / real (length d)\<rparr>)
                   (enumerate 0 docs)))"

definition top_result_only :: "int reranker" where
  "top_result_only query docs =
     Inr [\<lparr>result_index = int (length docs) - 1, relevance_score = 7\<rparr>]"

section \<open>Properties of reranking\<close>

lemma py_index_in_range:
  "0 \<le> i \<Longrightarrow> i < int n \<Longrightarrow> py_index n i = Inr (nat i)"
  by (simp add: py_index_def)

lemma assign_scores_frame:
  "\<forall>p\<in>set ixs. 0 \<le> snd p \<and> snd p < int (length scores) \<Longrightarrow>
   \<exists>out. assign_scores rss ixs scores = Inr out \<and> length out = length scores \<and>
     (\<forall>i<length scores. int i \<notin> snd ` set ixs \<longrightarrow> out ! i = scores ! i)"
proof (induction ixs arbitrary: scores)
  case Nil
  then show ?case by simp
next
  case (Cons p ixs)
  obtain i index where p: "p = (i, index)" by (cases p)
  from Cons.prems p have rng: "0 \<le> index" "index < int (length scores)" by auto
  let ?scores' = "scores[nat index := rss ! i]"
  have "\<forall>p\<in>set ixs. 0 \<le> snd p \<and> snd p < int (length ?scores')"
    using Cons.prems by simp
  from Cons.IH[OF this] obtain out where out:
    "assign_scores rss ixs ?scores' = Inr out" "length out = length scores"
    "\<forall>k<length scores. int k \<notin> snd ` set ixs \<longrightarrow> out ! k = ?scores' ! k"
    by auto
  have "assign_scores rss (p # ixs) scores = Inr out"
    using out(1) rng by (simp add: p py_index_in_range)
  moreover have "\<forall>k<length scores. int k \<notin> snd ` set (p # ixs) \<longrightarrow> out ! k = scores ! k"
    using out(3) rng by (auto simp: p nth_list_update)
  ultimately show ?case using out(2) by blast
qed

lemma assign_scores_values:
  "\<forall>p\<in>set ixs. 0 \<le> snd p \<and> snd p < int (length scores) \<Longrightarrow>
   distinct (map snd ixs) \<Longrightarrow>
   assign_scores rss ixs scores = Inr out \<Longrightarrow>
   \<forall>p\<in>set ixs. out ! nat (snd p) = rss ! fst p"
proof (induction ixs arbitrary: scores)
  case Nil
  then show ?case by simp
next
  case (Cons p ixs)
  obtain i index where p: "p = (i, index)" by (cases p)
  from Cons.prems p have rng: "0 \<le> index" "index < int (length scores)" by auto
  let ?scores' = "scores[nat index := rss ! i]"
  have rest: "\<forall>p\<in>set ixs. 0 \<le> snd p \<and> snd p < int (length ?scores')"
    using Cons.prems by simp
  have run: "assign_scores rss ixs ?scores' = Inr out"
    using Cons.prems(3) rng by (simp add: p py_index_in_range)
  have dist: "distinct (map snd ixs)" "index \<notin> snd ` set ixs"
    using Cons.prems(2) by (auto simp: p)
  have tl: "\<forall>p\<in>set ixs. out ! nat (snd p) = rss ! fst p"
    using Cons.IH[OF rest dist(1) run] .
  from assign_scores_frame[OF rest, of rss] run
  have keep: "\<forall>k<length scores. int k \<notin> snd ` set ixs \<longrightarrow> out ! k = ?scores' ! k"
    by auto
  have "nat index < length scores" using rng by linarith
  moreover have "int (nat index) \<notin> snd ` set ixs" using rng dist(2) by simp
  ultimately have "out ! nat index = ?scores' ! nat index" using keep by blast
  then have "out ! nat index = rss ! i" using \<open>nat index < length scores\<close> by simp
  then show ?case using tl by (simp add: p)
qed

lemma enumerate_indices:
  "map snd (enumerate 0 (map result_index results)) = map result_index results"
  by (simp add: enumerate_eq_zip)

lemma enumerate_member:
  "p \<in> set (enumerate 0 (map result_index results)) \<longleftrightarrow>
   (\<exists>i<length results. p = (i, result_index (results ! i)))"
  by (cases p) (auto simp: in_set_enumerate_eq)

lemma rerank_documents_frame:
  assumes "rerank query chunks = Inr results"
    and "\<forall>r\<in>set results. 0 \<le> result_index r \<and> result_index r < int (length chunks)"
  shows "\<exists>scores. rerank_documents rerank query chunks = Inr scores \<and>
           length scores = length chunks \<and>
           (\<forall>i<length chunks. int i \<notin> result_index ` set results \<longrightarrow> scores ! i = 0)"
proof -
  let ?ixs = "enumerate 0 (map result_index results)"
  let ?init = "replicate (length chunks) (0::'a)"
  have snd_ixs: "snd ` set ?ixs = result_index ` set results"
    using enumerate_indices[of results] by (metis list.set_map)
  have "\<forall>p\<in>set ?ixs. 0 \<le> snd p \<and> snd p < int (length ?init)"
    using assms(2) by (auto simp: enumerate_member)
  from assign_scores_frame[OF this, of "map relevance_score results"]
  show ?thesis
    using assms(1) snd_ixs by (auto simp: rerank_documents_def)
qed

lemma rerank_documents_values:
  assumes "rerank query chunks = Inr results"
    and "\<forall>r\<in>set results. 0 \<le> result_index r \<and> result_index r < int (length chunks)"
    and "distinct (map result_index results)"
    and "rerank_documents rerank query chunks = Inr scores"
  shows "\<forall>r\<in>set results. scores ! nat (result_index r) = relevance_score r"
proof -
  let ?ixs = "enumerate 0 (map result_index results)"
  let ?init = "replicate (length chunks) (0::'a)"
  let ?rss = "map relevance_score results"
  have snd_ixs: "snd ` set ?ixs = result_index ` set results"
    using enumerate_indices[of results] by (metis list.set_map)
  have rng: "\<forall>p\<in>set ?ixs. 0 \<le> snd p \<and> snd p < int (length ?init)"
    using assms(2) by (auto simp: enumerate_member)
  have dist: "distinct (map snd ?ixs)"
    using assms(3) by (simp add: enumerate_indices)
  have run: "assign_scores ?rss ?ixs ?init = Inr scores"
    using assms(1,4) by (simp add: rerank_documents_def)
  have all: "\<forall>p\<in>set ?ixs. scores ! nat (snd p) = ?rss ! fst p"
    using assign_scores_values[OF rng dist run] .
  show ?thesis
  proof
    fix r assume "r \<in> set results"
    then obtain i where i: "i < length results" "results ! i = r"
      by (auto simp: in_set_conv_nth)
    then have "(i, result_index r) \<in> set ?ixs"
      by (auto simp: enumerate_member)
    with all have "scores ! nat (result_index r) = ?rss ! i" by fastforce
    then show "scores ! nat (result_index r) = relevance_score r"
      using i by simp
  qed
qed

text \<open>
  C5, as the code has it. The comparison submits the raw chunk and the header-prefixed
  chunk in one reranking call, as the two-element list \<open>[chunk, header + chunk]\<close>. It
  returns \<open>None\<close>; the scores appear only in its last two printed lines, each formatted
  to four decimals. Whenever the results of that call carry the indices 0 and 1 in either
  order, the lines are in input order: the line "without header" shows the score the
  service attached to index 0 (the raw chunk) and the line "with header" the score
  attached to index 1. Only the answer to that one call is constrained, so the output
  depends on nothing else.
\<close>

theorem compare_prints_scores_in_input_order:
  assumes "py_index (length chunks) chunk_index = Inr c"
    and "rerank query [chunks ! c, with_header document_title (chunks ! c)] = Inr results"
    and "mset (map result_index results) = {#0, 1#}"
  shows "\<exists>score_without score_with.
           compare_chunk_similarities format_4f rerank chunk_index chunks document_title query
             = (Inr (),
                [chunk_header_line document_title, chunk_text_line (chunks ! c),
                 query_line query,
                 without_header_line (format_4f score_without),
                 with_header_line (format_4f score_with)]) \<and>
           \<lparr>result_index = 0, relevance_score = score_without\<rparr> \<in> set results \<and>
           \<lparr>result_index = 1, relevance_score = score_with\<rparr> \<in> set results"
proof -
  let ?pair = "[chunks ! c, with_header document_title (chunks ! c)]"
  have perm: "mset (map result_index results) = mset [0, 1 :: int]"
    using assms(3) by simp
  have idx: "set (map result_index results) = {0, 1}"
    using mset_eq_setD[OF perm] by simp
  have dist: "distinct (map result_index results)"
    using mset_eq_imp_distinct_iff[OF perm] by simp
  have rng: "\<forall>r\<in>set results. 0 \<le> result_index r \<and> result_index r < int (length ?pair)"
  proof
    fix r assume "r \<in> set results"
    then have "result_index r \<in> {0, 1}" using idx by auto
    then show "0 \<le> result_index r \<and> result_index r < int (length ?pair)" by auto
  qed
  from rerank_documents_frame[of rerank query ?pair results, OF assms(2) rng] obtain scores where
    scores: "rerank_documents rerank query ?pair = Inr scores" "length scores = 2"
    by auto
  have vals: "\<forall>r\<in>set results. scores ! nat (result_index r) = relevance_score r"
    using rerank_documents_values[of rerank query ?pair results, OF assms(2) rng dist scores(1)] .
  from idx obtain r0 r1 where r: "r0 \<in> set results" "result_index r0 = 0"
    "r1 \<in> set results" "result_index r1 = 1"
    by (metis (no_types, lifting) imageE insertI1 insert_commute list.set_map)
  have "scores ! 0 = relevance_score r0" "scores ! 1 = relevance_score r1"
    using vals r by (metis nat_zero_as_int nat_0, metis nat_one_as_int nat_1)
  then have "\<lparr>result_index = 0, relevance_score = scores ! 0\<rparr> = r0"
    "\<lparr>result_index = 1, relevance_score = scores ! 1\<rparr> = r1"
    using r by simp_all
  with r have "\<lparr>result_index = 0, relevance_score = scores ! 0\<rparr> \<in> set results"
    "\<lparr>result_index = 1, relevance_score = scores ! 1\<rparr> \<in> set results"
    by simp_all
  then show ?thesis
    using assms(1) scores(1)
    by (intro exI[of _ "scores ! 0"] exI[of _ "scores ! 1"])
       (simp add: compare_chunk_similarities_def)
qed

text \<open>
  The reranker that reverses the input order, on the last chunk of a two-chunk document
  (chunk index \<open>-1\<close>).
\<close>

theorem compare_prints_scores_in_input_order_witness:
  "py_index (length [''alpha'', ''beta'']) (- 1) = Inr 1 \<and>
   reversing_reranker ''q'' [''beta'', with_header ''T'' ''beta'']
     = Inr [\<lparr>result_index = 1, relevance_score = 1 / 23\<rparr>,
            \<lparr>result_index = 0, relevance_score = 1 / 4\<rparr>] \<and>
   compare_chunk_similarities four_decimals reversing_reranker (- 1) [''alpha'', ''beta'']
       ''T'' ''q''
     = (Inr (),
        [chunk_header_line ''T'', chunk_text_line ''beta'', query_line ''q'',
         without_header_line ''0.2500'', with_header_line ''0.0435''])"
proof -
  let ?chunks = "[''alpha'', ''beta'']"
  let ?results = "[\<lparr>result_index = 1, relevance_score = 1 / 23 :: real\<rparr>,
                   \<lparr>result_index = 0, relevance_score = 1 / 4\<rparr>]"
  have h1: "py_index (length ?chunks) (- 1) = Inr 1"
    by (simp add: py_index_def)
  have h2': "reversing_reranker ''q'' [''beta'', with_header ''T'' ''beta''] = Inr ?results"
    by (simp add: reversing_reranker_def with_header_def enumerate_eq_zip upt_rec)
  then have h2: "reversing_reranker ''q'' [?chunks ! 1, with_header ''T'' (?chunks ! 1)]
                   = Inr ?results"
    by simp
  have h3: "mset (map result_index ?results) = {#0, 1#}" by simp
  have f0: "four_decimals (1 / 4) = ''0.2500''"
    by (simp add: four_decimals_def nearest_int_def decimal_digit_def)
  have f1: "four_decimals (1 / 23) = ''0.0435''"
    by (simp add: four_decimals_def nearest_int_def decimal_digit_def)
  from compare_prints_scores_in_input_order[where rerank = reversing_reranker
         and format_4f = four_decimals
         and chunks = ?chunks and chunk_index = "- 1" and c = 1
         and document_title = "''T''" and query = "''q''" and results = ?results,
         OF h1 h2 h3] obtain a b where
    ab: "compare_chunk_similarities four_decimals reversing_reranker (- 1) ?chunks ''T'' ''q''
           = (Inr (), [chunk_header_line ''T'', chunk_text_line (?chunks ! 1), query_line ''q'',
                       without_header_line (four_decimals a), with_header_line (four_decimals b)])"
      "\<lparr>result_index = 0, relevance_score = a\<rparr> \<in> set ?results"
      "\<lparr>result_index = 1, relevance_score = b\<rparr> \<in> set ?results"
    by blast
  from ab(2,3) have "a = 1 / 4" "b = 1 / 23" by simp_all
  with ab(1) h1 h2' f0 f1 show ?thesis by simp
qed

text \<open>
  A run evaluated: the function returns \<open>None\<close>, not a pair of scores, and the scores
  \<open>1/4\<close> and \<open>1/23\<close> reach the caller only as the printed texts \<open>0.2500\<close> and
  \<open>0.0435\<close>.
\<close>

theorem compare_returns_none_counterexample:
  "fst (compare_chunk_similarities four_decimals reversing_reranker 0 [''beta''] ''T'' ''q'')
     = Inr () \<and>
   snd (compare_chunk_similarities four_decimals reversing_reranker 0 [''beta''] ''T'' ''q'')
     = [chunk_header_line ''T'', chunk_text_line ''beta'', query_line ''q'',
        without_header_line ''0.2500'', with_header_line ''0.0435'']"
  by (simp add: compare_chunk_similarities_def rerank_documents_def py_index_def
        reversing_reranker_def with_header_def enumerate_eq_zip upt_rec
        four_decimals_def nearest_int_def decimal_digit_def)

text \<open>
  C10. When the reranking service returns results for only some of the submitted
  positions (in any order), \<open>rerank_documents\<close> does not raise: it returns one score
  per submitted chunk, and every position absent from the results keeps the score 0.
  When no position is reported twice, every reported position holds its reported score.
\<close>

theorem rerank_partial_results:
  assumes "rerank query chunks = Inr results"
    and "\<forall>r\<in>set results. 0 \<le> result_index r \<and> result_index r < int (length chunks)"
  shows "\<exists>scores. rerank_documents rerank query chunks = Inr scores \<and>
           length scores = length chunks \<and>
           (\<forall>i<length chunks. int i \<notin> result_index ` set results \<longrightarrow> scores ! i = 0) \<and>
           (distinct (map result_index results) \<longrightarrow>
              (\<forall>r\<in>set results. scores ! nat (result_index r) = relevance_score r))"
proof -
  from rerank_documents_frame[of rerank query chunks results, OF assms]
  obtain scores where scores:
    "rerank_documents rerank query chunks = Inr scores" "length scores = length chunks"
    "\<forall>i<length chunks. int i \<notin> result_index ` set results \<longrightarrow> scores ! i = 0"
    by blast
  have "distinct (map result_index results) \<longrightarrow>
          (\<forall>r\<in>set results. scores ! nat (result_index r) = relevance_score r)"
    using rerank_documents_values[of rerank query chunks results scores, OF assms _ scores(1)]
    by blast
  with scores show ?thesis by blast
qed

text \<open>
  Three chunks, a single result for the last one.
\<close>

theorem rerank_partial_results_witness:
  "top_result_only ''q'' [''a'', ''b'', ''c''] = Inr [\<lparr>result_index = 2, relevance_score = 7\<rparr>] \<and>
   rerank_documents top_result_only ''q'' [''a'', ''b'', ''c''] = Inr [0, 0, 7]"
proof -
  let ?results = "[\<lparr>result_index = 2, relevance_score = 7::int\<rparr>]"
  have h1: "top_result_only ''q'' [''a'', ''b'', ''c''] = Inr ?results"
    by (simp add: top_result_only_def)
  have h2: "\<forall>r\<in>set ?results.
              0 \<le> result_index r \<and> result_index r < int (length [''a'', ''b'', ''c''])"
    by simp
  from rerank_partial_results[of top_result_only "''q''" "[''a'', ''b'', ''c'']" ?results,
         OF h1 h2]
  obtain scores where
    s: "rerank_documents top_result_only ''q'' [''a'', ''b'', ''c''] = Inr scores"
       "length scores = 3"
       "\<forall>i<3. int i \<notin> {2} \<longrightarrow> scores ! i = 0"
       "scores ! 2 = 7"
    by auto
  from s(3) have "scores ! 0 = 0" "scores ! 1 = 0" by simp_all
  with s(2,4) have "scores = [0, 0, 7]"
    by (cases scores; cases "tl scores"; cases "tl (tl scores)") auto
  with s(1) h1 show ?thesis by simp
qed

section \<open>Properties of the evaluation of one chunk size\<close>

lemma log_event_simps [simp]:
  "trace (log_event ev s) = trace s @ [ev]"
  "world (log_event ev s) = world s"
  "Settings (log_event ev s) = Settings s"
  "random_state (log_event ev s) = random_state s"
  by (simp_all add: log_event_def)

lemma call_frame:
  "call f s = (r, s') \<Longrightarrow>
   trace s' = trace s \<and> Settings s' = Settings s \<and> random_state s' = random_state s"
  by (auto simp: call_def split: prod.splits)

lemma ask_cases:
  assumes "ask C qe q s = (r, s')"
  obtains
    (answered) t f b where "r = Inr (t, f, b)"
      "trace s' = trace s @ [QueryCall q (Inr t), JudgeCall Faithfulness q (Inr f),
                             JudgeCall Relevancy q (Inr b)]"
  | (query_raised) e where "r = Inl e" "trace s' = trace s @ [QueryCall q (Inl e)]"
  | (faithfulness_raised) e t where "r = Inl e"
      "trace s' = trace s @ [QueryCall q (Inr t), JudgeCall Faithfulness q (Inl e)]"
  | (relevancy_raised) e t f where "r = Inl e"
      "trace s' = trace s @ [QueryCall q (Inr t), JudgeCall Faithfulness q (Inr f),
                             JudgeCall Relevancy q (Inl e)]"
  using assms unfolding ask_def Let_def
  by (auto split: prod.splits sum.splits dest!: call_frame)

lemma ask_frame:
  "ask C qe q s = (r, s') \<Longrightarrow> Settings s' = Settings s \<and> random_state s' = random_state s"
  unfolding ask_def Let_def
  by (auto split: prod.splits sum.splits dest!: call_frame)

lemma elapsed_times_append [simp]:
  "elapsed_times (xs @ ys) = elapsed_times xs @ elapsed_times ys"
  by (induction xs) (simp_all split: option.splits)

lemma passes_append [simp]: "passes j (xs @ ys) = passes j xs + passes j ys"
  by (simp add: passes_def)

lemma judge_calls_append [simp]:
  "judge_calls (xs @ ys) = judge_calls xs @ judge_calls ys"
  by (induction xs) (simp_all split: option.splits)

lemma passes_simps [simp]:
  "passes j [] = 0"
  "passes j (ev # evs) = of_bool (passing j ev) + passes j evs"
  by (simp_all add: passes_def)

lemma judge_plan_simps [simp]:
  "judge_plan [] = []"
  "judge_plan (q # qs) = (Faithfulness, q) # (Relevancy, q) # judge_plan qs"
  by (simp_all add: judge_plan_def)

lemma question_loop_frame:
  "question_loop C qe qs totals s = (r, s') \<Longrightarrow>
   Settings s' = Settings s \<and> random_state s' = random_state s"
proof (induction qs arbitrary: totals s)
  case Nil
  then show ?case by simp
next
  case (Cons q qs)
  obtain tt tf tr where totals: "totals = (tt, tf, tr)" by (cases totals)
  obtain a s1 where a: "ask C qe q s = (a, s1)" by (cases "ask C qe q s")
  show ?case
  proof (cases a)
    case (Inl e)
    with Cons.prems a totals ask_frame[OF a] show ?thesis by simp
  next
    case (Inr v)
    obtain t f b where v: "v = (t, f, b)" by (cases v)
    from Cons.prems a totals Inr v
    have "question_loop C qe qs (float_round C (tt + t), tf + of_bool f, tr + of_bool b) s1
            = (r, s')"
      by simp
    from Cons.IH[OF this] ask_frame[OF a] show ?thesis by simp
  qed
qed

lemma question_loop_totals:
  "question_loop C qe qs (tt, tf, tr) s = (Inr (tt', tf', tr'), s') \<Longrightarrow>
   \<exists>evs. trace s' = trace s @ evs \<and>
     length (elapsed_times evs) = length qs \<and>
     judge_calls evs = judge_plan qs \<and>
     tt' = foldl (\<lambda>total x. float_round C (total + x)) tt (elapsed_times evs) \<and>
     tf' = tf + passes Faithfulness evs \<and> passes Faithfulness evs \<le> length qs \<and>
     tr' = tr + passes Relevancy evs \<and> passes Relevancy evs \<le> length qs"
proof (induction qs arbitrary: tt tf tr s)
  case Nil
  then show ?case by simp
next
  case (Cons q qs)
  obtain a s1 where a: "ask C qe q s = (a, s1)" by (cases "ask C qe q s")
  from a show ?case
  proof (cases rule: ask_cases)
    case (answered t f b)
    from Cons.prems a answered(1)
    have "question_loop C qe qs (float_round C (tt + t), tf + of_bool f, tr + of_bool b) s1
            = (Inr (tt', tf', tr'), s')"
      by simp
    from Cons.IH[OF this] obtain evs where evs:
      "trace s' = trace s1 @ evs" "length (elapsed_times evs) = length qs"
      "judge_calls evs = judge_plan qs"
      "tt' = foldl (\<lambda>total x. float_round C (total + x)) (float_round C (tt + t))
               (elapsed_times evs)"
      "tf' = tf + of_bool f + passes Faithfulness evs" "passes Faithfulness evs \<le> length qs"
      "tr' = tr + of_bool b + passes Relevancy evs" "passes Relevancy evs \<le> length qs"
      by blast
    let ?evs = "[QueryCall q (Inr t), JudgeCall Faithfulness q (Inr f),
                 JudgeCall Relevancy q (Inr b)] @ evs"
    have "trace s' = trace s @ ?evs" using evs(1) answered(2) by simp
    moreover have "length (elapsed_times ?evs) = length (q # qs)" using evs(2) by simp
    moreover have "judge_calls ?evs = judge_plan (q # qs)" using evs(3) by simp
    moreover have "tt' = foldl (\<lambda>total x. float_round C (total + x)) tt (elapsed_times ?evs)"
      using evs(4) by simp
    moreover have "tf' = tf + passes Faithfulness ?evs" using evs(5) by simp
    moreover have "passes Faithfulness ?evs \<le> length (q # qs)" using evs(6) by simp
    moreover have "tr' = tr + passes Relevancy ?evs" using evs(7) by simp
    moreover have "passes Relevancy ?evs \<le> length (q # qs)" using evs(8) by simp
    ultimately show ?thesis by blast
  next
    case (query_raised e)
    with Cons.prems a show ?thesis by simp
  next
    case (faithfulness_raised e t)
    with Cons.prems a show ?thesis by simp
  next
    case (relevancy_raised e t f)
    with Cons.prems a show ?thesis by simp
  qed
qed

lemma question_loop_raised:
  "question_loop C qe qs totals s = (r, s') \<Longrightarrow>
   \<exists>evs. trace s' = trace s @ evs \<and>
     (\<forall>ev\<in>set evs. \<not> evaluate_called ev) \<and>
     prefix (judge_calls evs) (judge_plan qs) \<and>
     (\<forall>ev\<in>set evs. \<forall>e. raised ev = Some e \<longrightarrow> r = Inl e \<and> last evs = ev) \<and>
     (\<forall>e. r = Inl e \<longrightarrow> evs \<noteq> [] \<and> raised (last evs) = Some e)"
proof (induction qs arbitrary: totals s)
  case Nil
  then show ?case by auto
next
  case (Cons q qs)
  obtain tt tf tr where totals: "totals = (tt, tf, tr)" by (cases totals)
  obtain a s1 where a: "ask C qe q s = (a, s1)" by (cases "ask C qe q s")
  from a show ?case
  proof (cases rule: ask_cases)
    case (answered t f b)
    from Cons.prems a answered(1) totals
    have "question_loop C qe qs (float_round C (tt + t), tf + of_bool f, tr + of_bool b) s1
            = (r, s')"
      by simp
    from Cons.IH[OF this] obtain evs where evs:
      "trace s' = trace s1 @ evs" "\<forall>ev\<in>set evs. \<not> evaluate_called ev"
      "prefix (judge_calls evs) (judge_plan qs)"
      "\<forall>ev\<in>set evs. \<forall>e. raised ev = Some e \<longrightarrow> r = Inl e \<and> last evs = ev"
      "\<forall>e. r = Inl e \<longrightarrow> evs \<noteq> [] \<and> raised (last evs) = Some e"
      by blast
    let ?evs = "[QueryCall q (Inr t), JudgeCall Faithfulness q (Inr f),
                 JudgeCall Relevancy q (Inr b)] @ evs"
    have "trace s' = trace s @ ?evs" using evs(1) answered(2) by simp
    moreover have "\<forall>ev\<in>set ?evs. \<not> evaluate_called ev" using evs(2) by simp
    moreover have "prefix (judge_calls ?evs) (judge_plan (q # qs))" using evs(3) by simp
    moreover have "\<forall>ev\<in>set ?evs. \<forall>e. raised ev = Some e \<longrightarrow> r = Inl e \<and> last ?evs = ev"
      using evs(4) by auto
    moreover have "\<forall>e. r = Inl e \<longrightarrow> ?evs \<noteq> [] \<and> raised (last ?evs) = Some e"
      using evs(5) by auto
    ultimately show ?thesis by blast
  next
    case (query_raised e)
    with Cons.prems a totals have "r = Inl e" "s' = s1" by simp_all
    with query_raised(2) show ?thesis by (intro exI[of _ "[QueryCall q (Inl e)]"]) simp
  next
    case (faithfulness_raised e t)
    with Cons.prems a totals have "r = Inl e" "s' = s1" by simp_all
    with faithfulness_raised(2) show ?thesis
      by (intro exI[of _ "[QueryCall q (Inr t), JudgeCall Faithfulness q (Inl e)]"]) simp
  next
    case (relevancy_raised e t f)
    with Cons.prems a totals have "r = Inl e" "s' = s1" by simp_all
    with relevancy_raised(2) show ?thesis
      by (intro exI[of _ "[QueryCall q (Inr t), JudgeCall Faithfulness q (Inr f),
                           JudgeCall Relevancy q (Inl e)]"]) simp
  qed
qed

lemma settings_overwritten:
  "(S::settings)\<lparr>llm := a, chunk_size := b, chunk_overlap := c\<rparr>
     = \<lparr>llm = a, chunk_size = b, chunk_overlap = c\<rparr>"
  by (cases S) simp

lemma prepared_simps [simp]:
  "trace (prepared c qs s) = trace s @ [EvaluateCalled c qs]"
  "world (prepared c qs s) = world s"
  "Settings (prepared c qs s) = variant_settings c"
  "random_state (prepared c qs s) = random_state s"
  by (simp_all add: prepared_def)

lemma prepared_ignores_settings:
  "prepared c qs (s\<lparr>Settings := S1\<rparr>) = prepared c qs (s\<lparr>Settings := S2\<rparr>)"
  by (simp add: prepared_def log_event_def)

lemma evaluate_eq:
  "evaluate_response_time_and_accuracy C docs c qs s =
     (case call (from_documents C (variant_settings c) docs) (prepared c qs s) of
        (Inl e, s5) \<Rightarrow>
          (Inl e, log_event (FromDocumentsCall (variant_settings c) docs (Some e)) s5)
      | (Inr ix, s5) \<Rightarrow>
          (case question_loop C (engine ix) qs (0, 0, 0)
                  (log_event (FromDocumentsCall (variant_settings c) docs None) s5) of
             (r0, s7) \<Rightarrow> (finish (float_round C) (length qs) r0, s7)))"
  unfolding evaluate_response_time_and_accuracy_def Let_def finish_def variant_settings_def
    prepared_def engine_def
  by (auto simp: settings_overwritten split: prod.splits sum.splits dest!: call_frame)

lemma evaluate_cases:
  assumes "evaluate_response_time_and_accuracy C docs c qs s = (r, s')"
  obtains
    (build_raised) e where "r = Inl e"
      "trace s' = trace s @ [EvaluateCalled c qs, FromDocumentsCall (variant_settings c) docs (Some e)]"
  | (built) ix s6 r0 where
      "trace s6 = trace s @ [EvaluateCalled c qs, FromDocumentsCall (variant_settings c) docs None]"
      "question_loop C (engine ix) qs (0, 0, 0) s6 = (r0, s')"
      "r = finish (float_round C) (length qs) r0"
proof -
  obtain b s5 where b: "call (from_documents C (variant_settings c) docs) (prepared c qs s) = (b, s5)"
    by (cases "call (from_documents C (variant_settings c) docs) (prepared c qs s)")
  from call_frame[OF b] have s5: "trace s5 = trace s @ [EvaluateCalled c qs]" by simp
  show thesis
  proof (cases b)
    case (Inl e)
    with assms b s5 have "r = Inl e"
      "trace s' = trace s @ [EvaluateCalled c qs, FromDocumentsCall (variant_settings c) docs (Some e)]"
      by (auto simp: evaluate_eq)
    then show thesis by (rule build_raised)
  next
    case (Inr ix)
    let ?s6 = "log_event (FromDocumentsCall (variant_settings c) docs None) s5"
    obtain r0 s7 where loop: "question_loop C (engine ix) qs (0, 0, 0) ?s6 = (r0, s7)"
      by (cases "question_loop C (engine ix) qs (0, 0, 0) ?s6")
    with assms b Inr have "s' = s7" "r = finish (float_round C) (length qs) r0"
      by (auto simp: evaluate_eq)
    with loop s5 show thesis by (intro built[of ?s6 ix r0]) simp_all
  qed
qed

lemma evaluate_frame:
  assumes "evaluate_response_time_and_accuracy C docs c qs s = (r, s')"
  shows "Settings s' = variant_settings c \<and> random_state s' = random_state s"
  using assms
  by (auto simp: evaluate_eq split: prod.splits sum.splits
           dest!: question_loop_frame call_frame)

lemma evaluate_ignores_settings:
  "evaluate_response_time_and_accuracy C docs c qs (s\<lparr>Settings := S1\<rparr>)
   = evaluate_response_time_and_accuracy C docs c qs (s\<lparr>Settings := S2\<rparr>)"
proof -
  have h: "prepared c qs (s\<lparr>Settings := S1\<rparr>) = prepared c qs (s\<lparr>Settings := S2\<rparr>)"
    by (rule prepared_ignores_settings)
  show ?thesis unfolding evaluate_eq h by (rule refl)
qed

lemma evaluate_events:
  assumes "evaluate_response_time_and_accuracy C docs c qs s = (r, s')"
  shows "\<exists>out evs. trace s' = trace s @ EvaluateCalled c qs
                       # FromDocumentsCall (variant_settings c) docs out # evs \<and>
           (\<forall>ev\<in>set evs. \<not> evaluate_called ev) \<and>
           prefix (judge_calls evs) (judge_plan qs) \<and>
           (\<forall>ev\<in>set (FromDocumentsCall (variant_settings c) docs out # evs).
              \<forall>e. raised ev = Some e \<longrightarrow>
                r = Inl e \<and> last (FromDocumentsCall (variant_settings c) docs out # evs) = ev)"
  using assms
proof (cases rule: evaluate_cases)
  case (build_raised e)
  then show ?thesis
    by (intro exI[of _ "Some e"] exI[of _ "[]"]) simp
next
  case (built ix s6 r0)
  from question_loop_raised[OF built(2)] obtain evs where evs:
    "trace s' = trace s6 @ evs" "\<forall>ev\<in>set evs. \<not> evaluate_called ev"
    "prefix (judge_calls evs) (judge_plan qs)"
    "\<forall>ev\<in>set evs. \<forall>e. raised ev = Some e \<longrightarrow> r0 = Inl e \<and> last evs = ev"
    by blast
  have "\<forall>ev\<in>set evs. \<forall>e. raised ev = Some e \<longrightarrow> r = Inl e"
    using evs(4) built(3) by (auto simp: finish_def)
  then have "\<forall>ev\<in>set (FromDocumentsCall (variant_settings c) docs None # evs).
              \<forall>e. raised ev = Some e \<longrightarrow>
                r = Inl e \<and> last (FromDocumentsCall (variant_settings c) docs None # evs) = ev"
    using evs(4) by auto
  with evs(1,2,3) built(1) show ?thesis
    by (intro exI[of _ None] exI[of _ evs]) simp
qed

lemmas run_defs = evaluate_response_time_and_accuracy_def ask_def call_def log_event_def
  Let_def fresh_def example_services_def query_timeout_def judge_timeout_def
  relevancy_timeout_def quarters_def

text \<open>
  C2, as the code has it. A summary is returned only when the question list is non-empty
  and no call of the evaluation raised; then every question contributed one elapsed time
  and one verdict of each judge, and with N the length of the question list: the mean
  latency is the floating-point sum of the N elapsed times, accumulated in question order,
  divided by N; each rate is the number of passing verdicts divided by N; every division
  is rounded once, as floating-point division is. When rounding is monotone and leaves 0
  and 1 unchanged, as rounding to nearest does, both rates lie between 0 and 1. When a
  call raises there is no summary, so no rate is computed with any denominator.
\<close>

theorem summary_statistics:
  assumes "fst (evaluate_response_time_and_accuracy C docs c qs s) = Inr (avg_t, avg_f, avg_r)"
    and "mono (float_round C)" and "float_round C 0 = 0" and "float_round C 1 = 1"
  shows "\<exists>evs. trace (snd (evaluate_response_time_and_accuracy C docs c qs s)) = trace s @ evs \<and>
           qs \<noteq> [] \<and>
           (\<forall>ev\<in>set evs. raised ev = None) \<and>
           length (elapsed_times evs) = length qs \<and>
           judge_calls evs = judge_plan qs \<and>
           avg_t = float_round C (float_sum (float_round C) (elapsed_times evs)
                                    / real (length qs)) \<and>
           avg_f = float_round C (real (passes Faithfulness evs) / real (length qs)) \<and>
           avg_r = float_round C (real (passes Relevancy evs) / real (length qs)) \<and>
           0 \<le> avg_f \<and> avg_f \<le> 1 \<and> 0 \<le> avg_r \<and> avg_r \<le> 1"
proof -
  let ?fl = "float_round C"
  obtain r s' where run: "evaluate_response_time_and_accuracy C docs c qs s = (r, s')"
    by (cases "evaluate_response_time_and_accuracy C docs c qs s")
  with assms(1) have r: "r = Inr (avg_t, avg_f, avg_r)" by simp
  have unit_range: "0 \<le> ?fl (real a / real n) \<and> ?fl (real a / real n) \<le> 1"
    if "a \<le> n" "n \<noteq> 0" for a n :: nat
  proof -
    from that have lo: "0 \<le> real a / real n" and hi: "real a / real n \<le> 1" by simp_all
    have "?fl 0 \<le> ?fl (real a / real n)" by (rule monoD[OF assms(2) lo])
    moreover have "?fl (real a / real n) \<le> ?fl 1" by (rule monoD[OF assms(2) hi])
    ultimately show ?thesis by (simp add: assms(3,4))
  qed
  from run show ?thesis
  proof (cases rule: evaluate_cases)
    case (build_raised e)
    with r show ?thesis by simp
  next
    case (built ix s6 r0)
    let ?n = "length qs"
    from built(3) r obtain tt tf tr where r0: "r0 = Inr (tt, tf, tr)" and n: "?n \<noteq> 0"
      and avg: "avg_t = ?fl (tt / real ?n)" "avg_f = ?fl (real tf / real ?n)"
        "avg_r = ?fl (real tr / real ?n)"
      by (auto simp: finish_def split: sum.splits if_splits)
    from question_loop_totals[OF built(2)[unfolded r0]] obtain evs where evs:
      "trace s' = trace s6 @ evs" "length (elapsed_times evs) = ?n"
      "judge_calls evs = judge_plan qs"
      "tt = foldl (\<lambda>total x. ?fl (total + x)) 0 (elapsed_times evs)"
      "tf = 0 + passes Faithfulness evs" "passes Faithfulness evs \<le> ?n"
      "tr = 0 + passes Relevancy evs" "passes Relevancy evs \<le> ?n"
      by blast
    from question_loop_raised[OF built(2)] obtain evs2 where evs2:
      "trace s' = trace s6 @ evs2"
      "\<forall>ev\<in>set evs2. \<forall>e. raised ev = Some e \<longrightarrow> r0 = Inl e \<and> last evs2 = ev"
      by blast
    from evs2(1) evs(1) have same: "evs2 = evs" by simp
    have quiet: "\<forall>ev\<in>set evs. raised ev = None"
    proof
      fix ev assume ev: "ev \<in> set evs"
      show "raised ev = None"
      proof (cases "raised ev")
        case None
        then show ?thesis .
      next
        case (Some e)
        with evs2(2) ev same have "r0 = Inl e" by blast
        with r0 show ?thesis by simp
      qed
    qed
    let ?evs = "[EvaluateCalled c qs, FromDocumentsCall (variant_settings c) docs None] @ evs"
    have "trace (snd (evaluate_response_time_and_accuracy C docs c qs s)) = trace s @ ?evs"
      using run evs(1) built(1) by simp
    moreover have "qs \<noteq> []" using n by simp
    moreover have "\<forall>ev\<in>set ?evs. raised ev = None" using quiet by simp
    moreover have "length (elapsed_times ?evs) = ?n" using evs(2) by simp
    moreover have "judge_calls ?evs = judge_plan qs" using evs(3) by simp
    moreover have "avg_t = ?fl (float_sum ?fl (elapsed_times ?evs) / real ?n)"
      using avg(1) evs(4) by (simp add: float_sum_def)
    moreover have "avg_f = ?fl (real (passes Faithfulness ?evs) / real ?n)"
      using avg(2) evs(5) by simp
    moreover have "avg_r = ?fl (real (passes Relevancy ?evs) / real ?n)"
      using avg(3) evs(7) by simp
    moreover have "0 \<le> avg_f \<and> avg_f \<le> 1"
      using unit_range[OF evs(6) n] avg(2) evs(5) by simp
    moreover have "0 \<le> avg_r \<and> avg_r \<le> 1"
      using unit_range[OF evs(8) n] avg(3) evs(7) by simp
    ultimately show ?thesis by blast
  qed
qed

text \<open>
  Three questions answered in three ticks each; the relevancy judge passes two of them,
  and in the coarse format the rate \<open>2/3\<close> is rounded to \<open>1/2\<close>.
\<close>

theorem summary_statistics_witness:
  "fst (evaluate_response_time_and_accuracy example_services [''d''] 128
          [''q1'', ''q2'', ''q3''] fresh) = Inr (3, 1, 1 / 2) \<and>
   mono (float_round example_services) \<and>
   float_round example_services 0 = 0 \<and> float_round example_services 1 = 1 \<and>
   (\<exists>evs. trace (snd (evaluate_response_time_and_accuracy example_services [''d''] 128
                         [''q1'', ''q2'', ''q3''] fresh)) = trace fresh @ evs \<and>
      [''q1'', ''q2'', ''q3''] \<noteq> [] \<and>
      (\<forall>ev\<in>set evs. raised ev = None) \<and>
      length (elapsed_times evs) = length [''q1'', ''q2'', ''q3''] \<and>
      judge_calls evs = judge_plan [''q1'', ''q2'', ''q3''] \<and>
      3 = float_round example_services
            (float_sum (float_round example_services) (elapsed_times evs)
               / real (length [''q1'', ''q2'', ''q3''])) \<and>
      1 = float_round example_services
            (real (passes Faithfulness evs) / real (length [''q1'', ''q2'', ''q3''])) \<and>
      1 / 2 = float_round example_services
            (real (passes Relevancy evs) / real (length [''q1'', ''q2'', ''q3''])) \<and>
      (0::real) \<le> 1 \<and> (1::real) \<le> 1 \<and> (0::real) \<le> 1 / 2 \<and> (1::real) / 2 \<le> 1)"
proof -
  have h: "fst (evaluate_response_time_and_accuracy example_services [''d''] 128
                  [''q1'', ''q2'', ''q3''] fresh) = Inr (3, 1, 1 / 2)"
    by (simp add: run_defs)
  have m: "mono (float_round example_services)"
    by (auto simp: example_services_def quarters_def mono_def
             intro!: divide_right_mono floor_mono)
  have z: "float_round example_services 0 = 0" "float_round example_services 1 = 1"
    by (simp_all add: example_services_def quarters_def)
  from summary_statistics[OF h m z] h m z show ?thesis by blast
qed

text \<open>
  A run in which a call raised: the relevancy judge times out on the second of two
  questions, and the evaluation returns the timeout. There is no summary, hence no rate
  with denominator 2.
\<close>

theorem no_summary_after_error_counterexample:
  "fst (evaluate_response_time_and_accuracy relevancy_timeout [''d''] 128 [''q1'', ''q2''] fresh)
     = Inl (CollaboratorError ''timeout'') \<and>
   trace (snd (evaluate_response_time_and_accuracy relevancy_timeout [''d''] 128
                 [''q1'', ''q2''] fresh))
     = [EvaluateCalled 128 [''q1'', ''q2''],
        FromDocumentsCall (variant_settings 128) [''d''] None,
        QueryCall ''q1'' (Inr 3), JudgeCall Faithfulness ''q1'' (Inr True),
        JudgeCall Relevancy ''q1'' (Inr True),
        QueryCall ''q2'' (Inr 3), JudgeCall Faithfulness ''q2'' (Inr True),
        JudgeCall Relevancy ''q2'' (Inl (CollaboratorError ''timeout''))]"
  by (simp add: run_defs variant_settings_def)

text \<open>
  C3, as the code has it. There is no exception handling around the per-question calls:
  when the index construction, a query or a judge call raises, the evaluation returns that
  error instead of a summary, and the raising call is the last call made, so no later
  question is queried or judged.
\<close>

theorem error_aborts_evaluation:
  "\<exists>evs. trace (snd (evaluate_response_time_and_accuracy C docs c qs s)) = trace s @ evs \<and>
     (\<forall>ev\<in>set evs. \<forall>e. raised ev = Some e \<longrightarrow>
        fst (evaluate_response_time_and_accuracy C docs c qs s) = Inl e \<and> last evs = ev)"
proof -
  obtain r s' where run: "evaluate_response_time_and_accuracy C docs c qs s = (r, s')"
    by (cases "evaluate_response_time_and_accuracy C docs c qs s")
  from evaluate_events[OF run] obtain out evs where evs:
    "trace s' = trace s @ EvaluateCalled c qs # FromDocumentsCall (variant_settings c) docs out # evs"
    "\<forall>ev\<in>set (FromDocumentsCall (variant_settings c) docs out # evs).
       \<forall>e. raised ev = Some e \<longrightarrow>
         r = Inl e \<and> last (FromDocumentsCall (variant_settings c) docs out # evs) = ev"
    by blast
  let ?evs = "EvaluateCalled c qs # FromDocumentsCall (variant_settings c) docs out # evs"
  have "\<forall>ev\<in>set ?evs. \<forall>e. raised ev = Some e \<longrightarrow> r = Inl e \<and> last ?evs = ev"
    using evs(2) by auto
  with evs(1) run show ?thesis by (intro exI[of _ ?evs]) simp
qed

text \<open>
  The query engine times out on the second of three questions.
\<close>

theorem error_aborts_evaluation_witness:
  "fst (evaluate_response_time_and_accuracy query_timeout [''d''] 128 [''q1'', ''q2'', ''q3''] fresh)
     = Inl (CollaboratorError ''timeout'') \<and>
   last (trace (snd (evaluate_response_time_and_accuracy query_timeout [''d''] 128
                       [''q1'', ''q2'', ''q3''] fresh)))
     = QueryCall ''q2'' (Inl (CollaboratorError ''timeout''))"
proof -
  let ?E = "evaluate_response_time_and_accuracy query_timeout [''d''] 128 [''q1'', ''q2'', ''q3''] fresh"
  let ?ev = "QueryCall ''q2'' (Inl (CollaboratorError ''timeout''))"
  from error_aborts_evaluation[of query_timeout "[''d'']" 128 "[''q1'', ''q2'', ''q3'']" fresh]
  obtain evs where evs: "trace (snd ?E) = trace fresh @ evs"
    "\<forall>ev\<in>set evs. \<forall>e. raised ev = Some e \<longrightarrow> fst ?E = Inl e \<and> last evs = ev"
    by blast
  have tr: "trace (snd ?E) =
     [EvaluateCalled 128 [''q1'', ''q2'', ''q3''],
      FromDocumentsCall (variant_settings 128) [''d''] None,
      QueryCall ''q1'' (Inr 3), JudgeCall Faithfulness ''q1'' (Inr True),
      JudgeCall Relevancy ''q1'' (Inr True), ?ev]"
    by (simp add: run_defs variant_settings_def)
  have "trace fresh = []" by (simp add: fresh_def)
  with evs(1) have eq: "evs = trace (snd ?E)" by simp
  have "?ev \<in> set evs" unfolding eq tr by simp
  moreover have "raised ?ev = Some (CollaboratorError ''timeout'')" by simp
  ultimately have "fst ?E = Inl (CollaboratorError ''timeout'') \<and> last evs = ?ev"
    using evs(2) by blast
  then show ?thesis by (simp add: eq)
qed

text \<open>
  The same run, evaluated: the result is the timeout and not a summary, and the third
  question is never queried.
\<close>

theorem query_error_counterexample:
  "fst (evaluate_response_time_and_accuracy query_timeout [''d''] 128 [''q1'', ''q2'', ''q3''] fresh)
     = Inl (CollaboratorError ''timeout'') \<and>
   trace (snd (evaluate_response_time_and_accuracy query_timeout [''d''] 128
                 [''q1'', ''q2'', ''q3''] fresh))
     = [EvaluateCalled 128 [''q1'', ''q2'', ''q3''],
        FromDocumentsCall (variant_settings 128) [''d''] None,
        QueryCall ''q1'' (Inr 3), JudgeCall Faithfulness ''q1'' (Inr True),
        JudgeCall Relevancy ''q1'' (Inr True),
        QueryCall ''q2'' (Inl (CollaboratorError ''timeout''))]"
  by (simp add: run_defs variant_settings_def)

text \<open>
  C4, as the code has it. Each judge is invoked at most once per question, in question
  order, faithfulness before relevancy: the judge invocations made form a prefix of the
  plan with one faithfulness and one relevancy invocation per question. Nothing is
  retried, and a judge invocation that raises makes the evaluation return that error.
\<close>

theorem judge_invoked_once_per_question:
  "\<exists>evs. trace (snd (evaluate_response_time_and_accuracy C docs c qs s)) = trace s @ evs \<and>
     prefix (judge_calls evs) (judge_plan qs) \<and>
     (\<forall>j q e. JudgeCall j q (Inl e) \<in> set evs \<longrightarrow>
        fst (evaluate_response_time_and_accuracy C docs c qs s) = Inl e)"
proof -
  obtain r s' where run: "evaluate_response_time_and_accuracy C docs c qs s = (r, s')"
    by (cases "evaluate_response_time_and_accuracy C docs c qs s")
  from evaluate_events[OF run] obtain out evs where evs:
    "trace s' = trace s @ EvaluateCalled c qs # FromDocumentsCall (variant_settings c) docs out # evs"
    "prefix (judge_calls evs) (judge_plan qs)"
    "\<forall>ev\<in>set (FromDocumentsCall (variant_settings c) docs out # evs).
       \<forall>e. raised ev = Some e \<longrightarrow>
         r = Inl e \<and> last (FromDocumentsCall (variant_settings c) docs out # evs) = ev"
    by blast
  let ?evs = "EvaluateCalled c qs # FromDocumentsCall (variant_settings c) docs out # evs"
  have "prefix (judge_calls ?evs) (judge_plan qs)" using evs(2) by simp
  moreover have "\<forall>j q e. JudgeCall j q (Inl e) \<in> set ?evs \<longrightarrow> r = Inl e"
  proof (intro allI impI)
    fix j q e assume "JudgeCall j q (Inl e) \<in> set ?evs"
    then have "JudgeCall j q (Inl e) \<in> set (FromDocumentsCall (variant_settings c) docs out # evs)"
      by simp
    moreover have "raised (JudgeCall j q (Inl e)) = Some e" by simp
    ultimately show "r = Inl e" using evs(3) by blast
  qed
  ultimately show ?thesis using evs(1) run by (intro exI[of _ ?evs]) simp
qed

text \<open>
  The faithfulness judge times out on the first question.
\<close>

theorem judge_invoked_once_per_question_witness:
  "fst (evaluate_response_time_and_accuracy judge_timeout [''d''] 128 [''q1'', ''q2''] fresh)
     = Inl (CollaboratorError ''timeout'') \<and>
   prefix (judge_calls (trace (snd (evaluate_response_time_and_accuracy judge_timeout [''d''] 128
                                      [''q1'', ''q2''] fresh))))
          (judge_plan [''q1'', ''q2''])"
proof -
  let ?E = "evaluate_response_time_and_accuracy judge_timeout [''d''] 128 [''q1'', ''q2''] fresh"
  let ?ev = "JudgeCall Faithfulness ''q1'' (Inl (CollaboratorError ''timeout''))"
  from judge_invoked_once_per_question[of judge_timeout "[''d'']" 128 "[''q1'', ''q2'']" fresh]
  obtain evs where evs: "trace (snd ?E) = trace fresh @ evs"
    "prefix (judge_calls evs) (judge_plan [''q1'', ''q2''])"
    "\<forall>j q e. JudgeCall j q (Inl e) \<in> set evs \<longrightarrow> fst ?E = Inl e"
    by blast
  have tr: "trace (snd ?E) =
     [EvaluateCalled 128 [''q1'', ''q2''],
      FromDocumentsCall (variant_settings 128) [''d''] None,
      QueryCall ''q1'' (Inr 3), ?ev]"
    by (simp add: run_defs variant_settings_def)
  have "trace fresh = []" by (simp add: fresh_def)
  with evs(1) have eq: "evs = trace (snd ?E)" by simp
  have "?ev \<in> set evs" unfolding eq tr by simp
  with evs(3) have "fst ?E = Inl (CollaboratorError ''timeout'')" by blast
  with evs(2) show ?thesis by (simp add: eq)
qed

text \<open>
  The same run, evaluated: the judge was invoked once, no verdict was recorded, and the
  evaluation returned the timeout.
\<close>

theorem judge_error_counterexample:
  "fst (evaluate_response_time_and_accuracy judge_timeout [''d''] 128 [''q1'', ''q2''] fresh)
     = Inl (CollaboratorError ''timeout'') \<and>
   trace (snd (evaluate_response_time_and_accuracy judge_timeout [''d''] 128 [''q1'', ''q2''] fresh))
     = [EvaluateCalled 128 [''q1'', ''q2''],
        FromDocumentsCall (variant_settings 128) [''d''] None,
        QueryCall ''q1'' (Inr 3),
        JudgeCall Faithfulness ''q1'' (Inl (CollaboratorError ''timeout''))]"
  by (simp add: run_defs variant_settings_def)

text \<open>
  C8, as the code has it. The settings left by an earlier evaluation do not influence
  the next one, because each evaluation first overwrites the model, the chunk size and the
  chunk overlap and only then builds its own index. The settings object itself is shared:
  after an evaluation it holds that evaluation's configuration.
\<close>

theorem settings_overwritten_by_each_variant:
  "evaluate_response_time_and_accuracy C docs c qs (s\<lparr>Settings := S1\<rparr>)
     = evaluate_response_time_and_accuracy C docs c qs (s\<lparr>Settings := S2\<rparr>) \<and>
   Settings (snd (evaluate_response_time_and_accuracy C docs c qs s))
     = \<lparr>llm = OpenAI ''gpt-3.5-turbo'' None, chunk_size = c, chunk_overlap = c div 5\<rparr>"
proof
  show "evaluate_response_time_and_accuracy C docs c qs (s\<lparr>Settings := S1\<rparr>)
     = evaluate_response_time_and_accuracy C docs c qs (s\<lparr>Settings := S2\<rparr>)"
    by (rule evaluate_ignores_settings)
  show "Settings (snd (evaluate_response_time_and_accuracy C docs c qs s))
     = \<lparr>llm = OpenAI ''gpt-3.5-turbo'' None, chunk_size = c, chunk_overlap = c div 5\<rparr>"
    using evaluate_frame[of C docs c qs s]
    by (cases "evaluate_response_time_and_accuracy C docs c qs s")
       (simp add: variant_settings_def)
qed

text \<open>
  Evaluating chunk size 256 after chunk size 128 changes the settings that the first
  evaluation left.
\<close>

theorem shared_settings_counterexample:
  "Settings (snd (evaluate_response_time_and_accuracy example_services [''d''] 256 [''q1'']
                    (snd (evaluate_response_time_and_accuracy example_services [''d''] 128 [''q1''] fresh))))
   \<noteq> Settings (snd (evaluate_response_time_and_accuracy example_services [''d''] 128 [''q1''] fresh))"
  by (simp add: run_defs)

text \<open>
  C9. For every chunk size \<open>c\<close> the index is built with chunk size \<open>c\<close> and chunk
  overlap \<open>c div 5\<close> (floor division), and that overlap is what the settings hold
  afterwards: 25 for chunk size 128 and 51 for chunk size 256.
\<close>

theorem overlap_is_fifth_of_chunk_size:
  "chunk_overlap (Settings (snd (evaluate_response_time_and_accuracy C docs c qs s))) = c div 5 \<and>
   (\<exists>out evs. trace (snd (evaluate_response_time_and_accuracy C docs c qs s)) =
      trace s @ EvaluateCalled c qs
        # FromDocumentsCall \<lparr>llm = OpenAI ''gpt-3.5-turbo'' None, chunk_size = c,
                               chunk_overlap = c div 5\<rparr> docs out # evs) \<and>
   chunk_overlap (Settings (snd (evaluate_response_time_and_accuracy C docs 128 qs s))) = 25 \<and>
   chunk_overlap (Settings (snd (evaluate_response_time_and_accuracy C docs 256 qs s))) = 51"
proof -
  have ov: "chunk_overlap (Settings (snd (evaluate_response_time_and_accuracy C docs k qs s))) = k div 5"
    for k
    using evaluate_frame[of C docs k qs s] 
    by (cases "evaluate_response_time_and_accuracy C docs k qs s") (simp add: variant_settings_def)
  obtain r s' where run: "evaluate_response_time_and_accuracy C docs c qs s = (r, s')"
    by (cases "evaluate_response_time_and_accuracy C docs c qs s")
  from evaluate_events[OF run] obtain out evs where
    "trace s' = trace s @ EvaluateCalled c qs # FromDocumentsCall (variant_settings c) docs out # evs"
    by blast
  then have "\<exists>out evs. trace (snd (evaluate_response_time_and_accuracy C docs c qs s)) =
      trace s @ EvaluateCalled c qs
        # FromDocumentsCall \<lparr>llm = OpenAI ''gpt-3.5-turbo'' None, chunk_size = c,
                               chunk_overlap = c div 5\<rparr> docs out # evs"
    using run by (auto simp: variant_settings_def)
  then show ?thesis using ov[of c] ov[of 128] ov[of 256] by simp
qed

section \<open>Properties of benchmark generation and of the session\<close>

lemma mset_pool_step:
  assumes "j < length pool"
  shows "add_mset (pool ! j) (mset (butlast (pool[j := last pool]))) = mset pool"
proof (cases pool rule: rev_cases)
  case Nil
  with assms show ?thesis by simp
next
  case (snoc ys l)
  show ?thesis
  proof (cases "j < length ys")
    case True
    then have "butlast (pool[j := last pool]) = ys[j := l]" "pool ! j = ys ! j"
      by (simp_all add: snoc list_update_append nth_append)
    moreover have "add_mset (ys ! j) (mset (ys[j := l])) = add_mset l (mset ys)"
      using True by (simp add: mset_update)
    ultimately show ?thesis by (simp add: snoc)
  next
    case False
    with assms snoc have "j = length ys" by simp
    then show ?thesis by (simp add: snoc)
  qed
qed

lemma randbelow_less: "0 < n \<Longrightarrow> fst (randbelow n g) < n"
  by (simp add: randbelow_def)

lemma sample_pool_loop_sound:
  "k \<le> length pool \<Longrightarrow>
   length (fst (sample_pool_loop k pool g)) = k \<and>
   mset (fst (sample_pool_loop k pool g)) \<subseteq># mset pool"
proof (induction k arbitrary: pool g)
  case 0
  then show ?case by simp
next
  case (Suc k)
  obtain j g1 where rb: "randbelow (length pool) g = (j, g1)"
    by (cases "randbelow (length pool) g")
  from Suc.prems have pos: "0 < length pool" by (cases pool) simp_all
  with randbelow_less[OF pos, of g] rb have j: "j < length pool" by simp
  let ?pool = "butlast (pool[j := last pool])"
  have "k \<le> length ?pool" using Suc.prems by simp
  from Suc.IH[OF this, of g1]
  have ih: "length (fst (sample_pool_loop k ?pool g1)) = k"
    "mset (fst (sample_pool_loop k ?pool g1)) \<subseteq># mset ?pool" by simp_all
  have "mset (pool ! j # fst (sample_pool_loop k ?pool g1))
          \<subseteq># add_mset (pool ! j) (mset ?pool)"
    using ih(2) by simp
  then have "mset (pool ! j # fst (sample_pool_loop k ?pool g1)) \<subseteq># mset pool"
    by (simp only: mset_pool_step[OF j])
  with ih(1) rb show ?case by (auto split: prod.splits)
qed

lemma sample_pool_loop_first:
  "0 < k \<Longrightarrow> hd (fst (sample_pool_loop k pool g)) = pool ! (raw g 0 mod length pool)"
  by (cases k) (simp_all add: randbelow_def split: prod.splits)

lemma raw_advance: "raw (advance g) i = raw g (Suc i)"
  by transfer simp

lemma raw_counting_from: "raw (counting_from k) i = k + i"
  by transfer simp

lemma advance_counting_from: "advance (counting_from k) = counting_from (Suc k)"
  by transfer (rule ext, simp)

lemma raw_fair: "0 < n \<Longrightarrow> r < n \<Longrightarrow> \<exists>j. raw g j mod n = r"
  using raw[of g] unfolding fair_def by blast

lemma redraw_returns:
  assumes "raw g i mod n \<notin> selected" and "0 < n"
  shows "\<exists>j' g'. redraw n selected j g = Some (j', g') \<and> j' \<notin> selected \<and> (j' = j \<or> j' < n)"
  using assms(1)
proof (induction i arbitrary: j g)
  case 0
  show ?case
  proof (cases "j \<in> selected")
    case False
    then show ?thesis by (subst redraw.simps) simp
  next
    case True
    have "redraw n selected (raw g 0 mod n) (advance g) = Some (raw g 0 mod n, advance g)"
      using 0 by (subst redraw.simps) simp
    with True 0 assms(2) show ?thesis
      by (subst redraw.simps) (simp add: randbelow_def)
  qed
next
  case (Suc i)
  show ?case
  proof (cases "j \<in> selected")
    case False
    then show ?thesis by (subst redraw.simps) simp
  next
    case True
    from Suc.prems have "raw (advance g) i mod n \<notin> selected" by (simp add: raw_advance)
    from Suc.IH[OF this, of "raw g 0 mod n"] obtain j' g' where
      "redraw n selected (raw g 0 mod n) (advance g) = Some (j', g')" "j' \<notin> selected"
      "j' = raw g 0 mod n \<or> j' < n"
      by blast
    with True assms(2) show ?thesis
      by (subst redraw.simps) (auto simp: randbelow_def)
  qed
qed

lemma mset_nths_le:
  assumes "distinct js" and "set js \<subseteq> {..<length xs}"
  shows "mset (map ((!) xs) js) \<subseteq># mset xs"
proof -
  have "mset js \<subseteq># mset [0..<length xs]"
    using assms by (metis distinct_upt mset_set_set atLeast_upt finite_lessThan
        msubset_mset_set_iff finite_set lessThan_atLeast0 set_upt)
  then have "image_mset ((!) xs) (mset js) \<subseteq># image_mset ((!) xs) (mset [0..<length xs])"
    by (rule image_mset_subseteq_mono)
  then have "mset (map ((!) xs) js) \<subseteq># mset (map ((!) xs) [0..<length xs])"
    by (simp only: mset_map)
  then show ?thesis by (simp only: map_nth)
qed

lemma sample_set_loop_returns:
  assumes "finite selected" and "selected \<subseteq> {..<length population}"
    and "card selected + k \<le> length population"
  shows "\<exists>js g'. sample_set_loop k population selected g = Some (map ((!) population) js, g') \<and>
           length js = k \<and> distinct js \<and> set js \<subseteq> {..<length population} - selected"
  using assms
proof (induction k arbitrary: selected g)
  case 0
  then show ?case by simp
next
  case (Suc k)
  let ?n = "length population"
  from Suc.prems have small: "card selected < ?n" by simp
  then have pos: "0 < ?n" by linarith
  from small Suc.prems(1,2) obtain r where r: "r < ?n" "r \<notin> selected"
    by (metis card_lessThan lessThan_iff psubsetI psubset_imp_ex_mem order_less_irrefl
        subset_antisym subsetI)
  obtain i where i: "raw (advance g) i mod ?n = r" using raw_fair[OF pos r(1)] by blast
  with r(2) have fresh: "raw (advance g) i mod ?n \<notin> selected" by simp
  from redraw_returns[OF fresh pos, of "raw g 0 mod ?n"] obtain j g2 where j:
    "redraw ?n selected (raw g 0 mod ?n) (advance g) = Some (j, g2)" "j \<notin> selected"
    "j = raw g 0 mod ?n \<or> j < ?n"
    by blast
  from j(3) pos have jn: "j < ?n" by auto
  have "finite (insert j selected)" "insert j selected \<subseteq> {..<?n}"
    "card (insert j selected) + k \<le> ?n"
    using Suc.prems j(2) jn by simp_all
  from Suc.IH[OF this, of g2] obtain js g' where js:
    "sample_set_loop k population (insert j selected) g2 = Some (map ((!) population) js, g')"
    "length js = k" "distinct js" "set js \<subseteq> {..<?n} - insert j selected"
    by blast
  have "sample_set_loop (Suc k) population selected g
          = Some (map ((!) population) (j # js), g')"
    using j(1) js(1) by (simp add: randbelow_def)
  moreover have "length (j # js) = Suc k" "distinct (j # js)"
    "set (j # js) \<subseteq> {..<?n} - selected"
    using js(2,3,4) j(2) jn by auto
  ultimately show ?case by blast
qed

lemma raw_preceded_by:
  "raw (preceded_by xs g) i = (if i < length xs then xs ! i else raw g (i - length xs))"
  by transfer simp

lemma advance_preceded_by: "advance (preceded_by (x # xs) g) = preceded_by xs g"
  by transfer (rule ext, simp)

lemma preceded_by_Nil: "preceded_by [] g = g"
  by transfer (rule ext, simp)

lemmas preceded_by_simps = raw_preceded_by advance_preceded_by preceded_by_Nil

lemma random_sample_sound:
  assumes "k \<le> length population"
  shows "\<exists>result g'. random_sample population k g = Inr (result, g') \<and>
           length result = k \<and> mset result \<subseteq># mset population \<and>
           (if length population \<le> setsize k
            then sample_pool_loop k population g = (result, g')
            else sample_set_loop k population {} g = Some (result, g'))"
proof (cases "length population \<le> setsize k")
  case True
  obtain result g' where run: "sample_pool_loop k population g = (result, g')"
    by (cases "sample_pool_loop k population g")
  with sample_pool_loop_sound[OF assms, of g]
  have "length result = k" "mset result \<subseteq># mset population" by simp_all
  with run True assms show ?thesis by (simp add: random_sample_def)
next
  case False
  have "finite ({}::nat set)" "{} \<subseteq> {..<length population}"
    "card ({}::nat set) + k \<le> length population"
    using assms by simp_all
  from sample_set_loop_returns[OF this, of g] obtain js g' where js:
    "sample_set_loop k population {} g = Some (map ((!) population) js, g')"
    "length js = k" "distinct js" "set js \<subseteq> {..<length population}"
    by auto
  have "mset (map ((!) population) js) \<subseteq># mset population"
    using mset_nths_le[OF js(3,4)] .
  with js(1,2) False assms show ?thesis by (simp add: random_sample_def)
qed

lemma random_sample_too_large:
  "length population < k \<Longrightarrow> random_sample population k g = Inl ValueError"
  by (simp add: random_sample_def)

lemma setsize_25: "setsize 25 = 277"
  by (simp add: setsize_def)

text \<open>
  The set loop at work, on 22 elements with \<open>k = 2\<close> (above \<open>setsize 2 = 21\<close>): the
  raw outputs 0, 22, 1 give position 0, then position 0 again, which is redrawn, then
  position 1.
\<close>

lemma random_sample_redraws:
  "random_sample [0..<22] 2 (preceded_by [0, 22] (counting_from 1))
     = Inr ([0, 1], counting_from 2)"
proof -
  let ?c1 = "counting_from (Suc 0)"
  let ?c2 = "counting_from (Suc (Suc 0))"
  have first: "randbelow 22 (preceded_by [0, 22] ?c1) = (0, preceded_by [22] ?c1)"
    by (simp add: randbelow_def preceded_by_simps)
  have second: "randbelow 22 (preceded_by [22] ?c1) = (0, ?c1)"
    by (simp add: randbelow_def preceded_by_simps)
  have third: "randbelow 22 ?c1 = (Suc 0, ?c2)"
    by (simp add: randbelow_def raw_counting_from advance_counting_from)
  have kept: "redraw 22 {} 0 (preceded_by [22] ?c1) = Some (0, preceded_by [22] ?c1)"
    by (subst redraw.simps) simp
  have step: "redraw 22 {0} (Suc 0) ?c2 = Some (Suc 0, ?c2)"
    by (subst redraw.simps) simp
  have redrawn: "redraw 22 {0} 0 ?c1 = Some (Suc 0, ?c2)"
    by (subst redraw.simps) (simp add: third step)
  have "sample_set_loop (Suc (Suc 0)) [0..<22] {} (preceded_by [0, 22] ?c1)
          = Some ([0, Suc 0], ?c2)"
    by (simp add: first second kept redrawn)
  then show ?thesis
    by (simp add: random_sample_def setsize_def numeral_2_eq_2)
qed

lemma generate_benchmark_sampled:
  assumes "generate_questions_from_nodes C (Settings s) (take 20 documents) (world s)
             = (Inr eval_questions, w1)"
    and "num_eval_questions \<le> length eval_questions"
  shows "\<exists>qs s1. generate_benchmark C documents s = (Inr (take 20 documents, qs), s1) \<and>
           random_sample eval_questions num_eval_questions (random_state s)
             = Inr (qs, random_state s1) \<and>
           trace s1 = trace s @ [GenerateQuestionsCall (take 20 documents) None] \<and>
           Settings s1 = Settings s"
proof -
  from random_sample_sound[OF assms(2), of "random_state s"] obtain qs g' where
    "random_sample eval_questions num_eval_questions (random_state s) = Inr (qs, g')"
    by blast
  with assms(1) show ?thesis
    by (simp add: generate_benchmark_def call_def Let_def)
qed

lemma generate_benchmark_too_few:
  assumes "generate_questions_from_nodes C (Settings s) (take 20 documents) (world s)
             = (Inr eval_questions, w1)"
    and "length eval_questions < num_eval_questions"
  shows "\<exists>s1. generate_benchmark C documents s = (Inl ValueError, s1) \<and>
           trace s1 = trace s @ [GenerateQuestionsCall (take 20 documents) None] \<and>
           random_state s1 = random_state s"
  using assms random_sample_too_large[OF assms(2), of "random_state s"]
  by (simp add: generate_benchmark_def call_def Let_def)

lemma chunk_sizes_loop_events:
  "chunk_sizes_loop C docs qs cs s = (r, s') \<Longrightarrow>
   random_state s' = random_state s \<and>
   (\<exists>evs. trace s' = trace s @ evs \<and>
      prefix (filter evaluate_called evs) (map (\<lambda>c. EvaluateCalled c qs) cs) \<and>
      (cs \<noteq> [] \<longrightarrow> filter evaluate_called evs \<noteq> []) \<and>
      (r = Inr () \<longrightarrow> filter evaluate_called evs = map (\<lambda>c. EvaluateCalled c qs) cs))"
proof (induction cs arbitrary: s)
  case Nil
  then show ?case by auto
next
  case (Cons c cs)
  obtain a s1 where run: "evaluate_response_time_and_accuracy C docs c qs s = (a, s1)"
    by (cases "evaluate_response_time_and_accuracy C docs c qs s")
  from evaluate_events[OF run] obtain out evs where evs:
    "trace s1 = trace s @ EvaluateCalled c qs # FromDocumentsCall (variant_settings c) docs out # evs"
    "\<forall>ev\<in>set evs. \<not> evaluate_called ev"
    by blast
  have flt: "filter evaluate_called evs = []" using evs(2) by (simp add: filter_empty_conv)
  from evaluate_frame[OF run] have rs: "random_state s1 = random_state s" by simp
  show ?case
  proof (cases a)
    case (Inl e)
    with Cons.prems run have "r = Inl e" "s' = s1" by simp_all
    with evs(1) flt rs show ?thesis
      by (auto intro!: exI[of _ "EvaluateCalled c qs # FromDocumentsCall (variant_settings c) docs out # evs"])
  next
    case (Inr v)
    obtain t f b where v: "v = (t, f, b)" by (cases v)
    let ?s2 = "log_event (Printed c t f b) s1"
    from Cons.prems run Inr v have "chunk_sizes_loop C docs qs cs ?s2 = (r, s')" by simp
    from Cons.IH[OF this] obtain evs' where evs':
      "random_state s' = random_state ?s2" "trace s' = trace ?s2 @ evs'"
      "prefix (filter evaluate_called evs') (map (\<lambda>c. EvaluateCalled c qs) cs)"
      "r = Inr () \<longrightarrow> filter evaluate_called evs' = map (\<lambda>c. EvaluateCalled c qs) cs"
      by blast
    let ?evs = "EvaluateCalled c qs # FromDocumentsCall (variant_settings c) docs out # evs
                  @ Printed c t f b # evs'"
    have "trace s' = trace s @ ?evs" using evs'(2) evs(1) by simp
    moreover have "filter evaluate_called ?evs = EvaluateCalled c qs # filter evaluate_called evs'"
      using flt by simp
    ultimately show ?thesis using evs'(1,3,4) rs
      by (auto intro!: exI[of _ ?evs])
  qed
qed

lemma session_sampled:
  assumes "generate_benchmark C documents s = (Inr (docs, qs), s1)"
  shows "random_state (snd (session C documents s)) = random_state s1 \<and>
     (\<exists>evs. trace (snd (session C documents s)) = trace s1 @ evs \<and>
        prefix (filter evaluate_called evs) (map (\<lambda>c. EvaluateCalled c qs) chunk_sizes) \<and>
        filter evaluate_called evs \<noteq> [] \<and>
        (fst (session C documents s) = Inr () \<longrightarrow>
           filter evaluate_called evs = map (\<lambda>c. EvaluateCalled c qs) chunk_sizes))"
proof -
  let ?s2 = "s1\<lparr>Settings := (Settings s1)\<lparr>llm := gpt4\<rparr>\<rparr>"
  obtain r s' where loop: "chunk_sizes_loop C docs qs chunk_sizes ?s2 = (r, s')"
    by (cases "chunk_sizes_loop C docs qs chunk_sizes ?s2")
  with assms have ses: "session C documents s = (r, s')" by (simp add: session_def)
  from chunk_sizes_loop_events[OF loop] show ?thesis
    unfolding ses by (simp add: chunk_sizes_def)
qed

text \<open>
  C1. When question generation yields at least 25 questions, the sampled list has exactly
  25 elements, and that same list is what every evaluation of the session receives: the
  evaluations entered are those of chunk size 128 and then 256, in this order, each with
  the sampled list (at least the first, and both when the session completes). The
  generator is not used again after sampling, so nothing is resampled.
\<close>

theorem frozen_question_set_reused:
  assumes "generate_questions_from_nodes C (Settings s) (take 20 documents) (world s)
             = (Inr eval_questions, w1)"
    and "num_eval_questions \<le> length eval_questions"
  shows "\<exists>k_eval_questions s1 evs.
           generate_benchmark C documents s = (Inr (take 20 documents, k_eval_questions), s1) \<and>
           length k_eval_questions = 25 \<and>
           trace (snd (session C documents s)) = trace s1 @ evs \<and>
           prefix (filter evaluate_called evs)
             [EvaluateCalled 128 k_eval_questions, EvaluateCalled 256 k_eval_questions] \<and>
           filter evaluate_called evs \<noteq> [] \<and>
           (fst (session C documents s) = Inr () \<longrightarrow>
              filter evaluate_called evs
                = [EvaluateCalled 128 k_eval_questions, EvaluateCalled 256 k_eval_questions]) \<and>
           random_state (snd (session C documents s)) = random_state s1"
proof -
  from generate_benchmark_sampled[OF assms] obtain qs s1 where gen:
    "generate_benchmark C documents s = (Inr (take 20 documents, qs), s1)"
    "random_sample eval_questions num_eval_questions (random_state s) = Inr (qs, random_state s1)"
    by blast
  from random_sample_sound[OF assms(2), of "random_state s"] gen(2)
  have len: "length qs = 25" by (auto simp: num_eval_questions_def)
  from session_sampled[OF gen(1)] obtain evs where
    "random_state (snd (session C documents s)) = random_state s1"
    "trace (snd (session C documents s)) = trace s1 @ evs"
    "prefix (filter evaluate_called evs) (map (\<lambda>c. EvaluateCalled c qs) chunk_sizes)"
    "filter evaluate_called evs \<noteq> []"
    "fst (session C documents s) = Inr () \<longrightarrow>
       filter evaluate_called evs = map (\<lambda>c. EvaluateCalled c qs) chunk_sizes"
    by blast
  with gen(1) len show ?thesis
    by (intro exI[of _ qs] exI[of _ s1] exI[of _ evs]) (simp add: chunk_sizes_def)
qed

text \<open>
  Thirteen documents, twenty-six generated questions.
\<close>

theorem frozen_question_set_reused_witness:
  "generate_questions_from_nodes example_services (Settings fresh)
       (take 20 (replicate 13 ''d'')) (world fresh)
     = (Inr (concat (replicate 13 [''What is d'', ''Why d''])), 5) \<and>
   num_eval_questions \<le> length (concat (replicate 13 [''What is d'', ''Why d''])) \<and>
   (\<exists>k_eval_questions s1 evs.
      generate_benchmark example_services (replicate 13 ''d'') fresh
        = (Inr (take 20 (replicate 13 ''d''), k_eval_questions), s1) \<and>
      length k_eval_questions = 25 \<and>
      trace (snd (session example_services (replicate 13 ''d'') fresh)) = trace s1 @ evs \<and>
      prefix (filter evaluate_called evs)
        [EvaluateCalled 128 k_eval_questions, EvaluateCalled 256 k_eval_questions] \<and>
      filter evaluate_called evs \<noteq> [] \<and>
      (fst (session example_services (replicate 13 ''d'') fresh) = Inr () \<longrightarrow>
         filter evaluate_called evs
           = [EvaluateCalled 128 k_eval_questions, EvaluateCalled 256 k_eval_questions]) \<and>
      random_state (snd (session example_services (replicate 13 ''d'') fresh)) = random_state s1)"
proof -
  have h1: "generate_questions_from_nodes example_services (Settings fresh)
       (take 20 (replicate 13 ''d'')) (world fresh)
     = (Inr (concat (replicate 13 [''What is d'', ''Why d''])), 5)"
    by (simp add: example_services_def fresh_def)
  have h2: "num_eval_questions \<le> length (concat (replicate 13 [''What is d'', ''Why d'']))"
    by (simp add: num_eval_questions_def length_concat sum_list_replicate)
  from frozen_question_set_reused[OF h1 h2] h1 h2 show ?thesis by blast
qed

text \<open>
  C6, as the code has it. No seed is passed: the sample is what \<open>random.sample\<close>
  draws from the generated questions with the process-global generator in its current
  state, by the pool loop when at most 277 questions were generated and by the set loop
  with redraws otherwise. Either loop returns; the sample has 25 elements, taken without
  replacement (as a multiset it is contained in the pool), and the generator state is
  advanced to where the loop left it.
\<close>

theorem sample_drawn_from_global_generator:
  assumes "generate_questions_from_nodes C (Settings s) (take 20 documents) (world s)
             = (Inr eval_questions, w1)"
    and "num_eval_questions \<le> length eval_questions"
  shows "\<exists>qs s1. generate_benchmark C documents s = (Inr (take 20 documents, qs), s1) \<and>
           random_sample eval_questions num_eval_questions (random_state s)
             = Inr (qs, random_state s1) \<and>
           (if length eval_questions \<le> 277
            then sample_pool_loop 25 eval_questions (random_state s) = (qs, random_state s1)
            else sample_set_loop 25 eval_questions {} (random_state s)
                   = Some (qs, random_state s1)) \<and>
           length qs = num_eval_questions \<and> mset qs \<subseteq># mset eval_questions"
proof -
  from generate_benchmark_sampled[OF assms] obtain qs s1 where gen:
    "generate_benchmark C documents s = (Inr (take 20 documents, qs), s1)"
    "random_sample eval_questions num_eval_questions (random_state s) = Inr (qs, random_state s1)"
    by blast
  have k: "num_eval_questions = 25" by (simp add: num_eval_questions_def)
  from random_sample_sound[OF assms(2), of "random_state s"] gen(2)
  have "length qs = num_eval_questions" "mset qs \<subseteq># mset eval_questions"
    "if length eval_questions \<le> setsize num_eval_questions
     then sample_pool_loop num_eval_questions eval_questions (random_state s)
            = (qs, random_state s1)
     else sample_set_loop num_eval_questions eval_questions {} (random_state s)
            = Some (qs, random_state s1)"
    by auto
  then have "length qs = num_eval_questions" "mset qs \<subseteq># mset eval_questions"
    "if length eval_questions \<le> 277
     then sample_pool_loop 25 eval_questions (random_state s) = (qs, random_state s1)
     else sample_set_loop 25 eval_questions {} (random_state s) = Some (qs, random_state s1)"
    by (simp_all only: k setsize_25)
  with gen show ?thesis by blast
qed

text \<open>
  Fifteen documents, thirty generated questions.
\<close>

theorem sample_drawn_from_global_generator_witness:
  "generate_questions_from_nodes example_services (Settings fresh)
       (take 20 (replicate 15 ''d'')) (world fresh)
     = (Inr (concat (replicate 15 [''What is d'', ''Why d''])), 5) \<and>
   num_eval_questions \<le> length (concat (replicate 15 [''What is d'', ''Why d''])) \<and>
   (\<exists>qs s1. generate_benchmark example_services (replicate 15 ''d'') fresh
               = (Inr (take 20 (replicate 15 ''d''), qs), s1) \<and>
      random_sample (concat (replicate 15 [''What is d'', ''Why d''])) num_eval_questions
          (random_state fresh) = Inr (qs, random_state s1) \<and>
      (if length (concat (replicate 15 [''What is d'', ''Why d''])) \<le> 277
       then sample_pool_loop 25 (concat (replicate 15 [''What is d'', ''Why d'']))
              (random_state fresh) = (qs, random_state s1)
       else sample_set_loop 25 (concat (replicate 15 [''What is d'', ''Why d''])) {}
              (random_state fresh) = Some (qs, random_state s1)) \<and>
      length qs = num_eval_questions \<and>
      mset qs \<subseteq># mset (concat (replicate 15 [''What is d'', ''Why d''])))"
proof -
  have h1: "generate_questions_from_nodes example_services (Settings fresh)
       (take 20 (replicate 15 ''d'')) (world fresh)
     = (Inr (concat (replicate 15 [''What is d'', ''Why d''])), 5)"
    by (simp add: example_services_def fresh_def)
  have h2: "num_eval_questions \<le> length (concat (replicate 15 [''What is d'', ''Why d'']))"
    by (simp add: num_eval_questions_def length_concat sum_list_replicate)
  from sample_drawn_from_global_generator[OF h1 h2] h1 h2 show ?thesis by blast
qed

text \<open>
  The same documents, services and sample size, but another state of the global
  generator, give another question set.
\<close>

theorem generator_state_decides_sample_counterexample:
  "fst (generate_benchmark example_services (replicate 13 ''d'') fresh)
   \<noteq> fst (generate_benchmark example_services (replicate 13 ''d'')
            (fresh\<lparr>random_state := counting_from 1\<rparr>))"
proof -
  let ?pool = "concat (replicate 13 [''What is d'', ''Why d''])"
  let ?other = "fresh\<lparr>random_state := counting_from 1\<rparr>"
  have len: "length ?pool = 26" by (simp add: length_concat sum_list_replicate)
  have h2: "num_eval_questions \<le> length ?pool" by (simp add: len num_eval_questions_def)
  have front: "?pool ! 0 = ''What is d''" "?pool ! Suc 0 = ''Why d''"
    by (simp_all add: eval_nat_numeral)
  have a: "generate_questions_from_nodes example_services (Settings fresh)
             (take 20 (replicate 13 ''d'')) (world fresh) = (Inr ?pool, 5)"
    by (simp add: example_services_def fresh_def)
  have b: "generate_questions_from_nodes example_services (Settings ?other)
             (take 20 (replicate 13 ''d'')) (world ?other) = (Inr ?pool, 5)"
    by (simp add: example_services_def fresh_def)
  have pool_loop: "fst the_sample = fst (sample_pool_loop 25 ?pool g)"
    if "random_sample ?pool num_eval_questions g = Inr the_sample" for g the_sample
    using that by (auto simp: random_sample_def len setsize_25 num_eval_questions_def)
  from generate_benchmark_sampled[OF a h2] obtain qs s1 where qs:
    "generate_benchmark example_services (replicate 13 ''d'') fresh
       = (Inr (take 20 (replicate 13 ''d''), qs), s1)"
    "random_sample ?pool num_eval_questions (random_state fresh) = Inr (qs, random_state s1)"
    by blast
  from generate_benchmark_sampled[OF b h2] obtain qs' s1' where qs':
    "generate_benchmark example_services (replicate 13 ''d'') ?other
       = (Inr (take 20 (replicate 13 ''d''), qs'), s1')"
    "random_sample ?pool num_eval_questions (random_state ?other) = Inr (qs', random_state s1')"
    by blast
  from pool_loop[OF qs(2)]
  have "qs = fst (sample_pool_loop 25 ?pool (random_state fresh))" by simp
  then have "hd qs = ?pool ! (raw (random_state fresh) 0 mod length ?pool)"
    by (simp only: sample_pool_loop_first[of 25, simplified])
  then have hd1: "hd qs = ''What is d''"
    by (simp add: len fresh_def front raw_counting_from)
  from pool_loop[OF qs'(2)]
  have "qs' = fst (sample_pool_loop 25 ?pool (random_state ?other))" by simp
  then have "hd qs' = ?pool ! (raw (random_state ?other) 0 mod length ?pool)"
    by (simp only: sample_pool_loop_first[of 25, simplified])
  then have hd2: "hd qs' = ''Why d''" by (simp add: len front raw_counting_from)
  from hd1 hd2 have "qs \<noteq> qs'" by auto
  then show ?thesis unfolding qs(1) qs'(1) by simp
qed

text \<open>
  C7, as the code has it. When fewer than 25 questions were generated, sampling raises
  ValueError instead of truncating, and the session ends there: the question-generation
  service has been called (once), and no index was built and no query or judge call made.
\<close>

theorem undersized_pool_raises_after_generation:
  assumes "generate_questions_from_nodes C (Settings s) (take 20 documents) (world s)
             = (Inr eval_questions, w1)"
    and "length eval_questions < num_eval_questions"
  shows "fst (session C documents s) = Inl ValueError \<and>
         trace (snd (session C documents s))
           = trace s @ [GenerateQuestionsCall (take 20 documents) None] \<and>
         random_state (snd (session C documents s)) = random_state s"
proof -
  from generate_benchmark_too_few[OF assms] obtain s1 where
    "generate_benchmark C documents s = (Inl ValueError, s1)"
    "trace s1 = trace s @ [GenerateQuestionsCall (take 20 documents) None]"
    "random_state s1 = random_state s"
    by blast
  then show ?thesis by (simp add: session_def)
qed

text \<open>
  Twenty documents with one question each.
\<close>

theorem undersized_pool_raises_after_generation_witness:
  "generate_questions_from_nodes one_question_per_document (Settings fresh)
       (take 20 (replicate 20 ''d'')) (world fresh)
     = (Inr (replicate 20 ''What is d''), 5) \<and>
   length (replicate 20 ''What is d'') < num_eval_questions \<and>
   fst (session one_question_per_document (replicate 20 ''d'') fresh) = Inl ValueError \<and>
   trace (snd (session one_question_per_document (replicate 20 ''d'') fresh))
     = trace fresh @ [GenerateQuestionsCall (take 20 (replicate 20 ''d'')) None] \<and>
   random_state (snd (session one_question_per_document (replicate 20 ''d'') fresh))
     = random_state fresh"
proof -
  have h1: "generate_questions_from_nodes one_question_per_document (Settings fresh)
       (take 20 (replicate 20 ''d'')) (world fresh)
     = (Inr (replicate 20 ''What is d''), 5)"
    by (simp add: one_question_per_document_def example_services_def fresh_def)
  have h2: "length (replicate 20 ''What is d'') < num_eval_questions"
    by (simp add: num_eval_questions_def)
  from undersized_pool_raises_after_generation[OF h1 h2] h1 h2 show ?thesis by blast
qed

text \<open>
  In that run the error comes after a call to the question-generation service.
\<close>

theorem collaborator_called_before_error_counterexample:
  "fst (generate_benchmark one_question_per_document (replicate 20 ''d'') fresh) = Inl ValueError \<and>
   trace (snd (generate_benchmark one_question_per_document (replicate 20 ''d'') fresh))
     = [GenerateQuestionsCall (replicate 20 ''d'') None]"
  by (simp add: generate_benchmark_def call_def log_event_def random_sample_def Let_def
        num_eval_questions_def one_question_per_document_def example_services_def fresh_def)

end
